theory Spec2Isabelle
  imports Main "HOL-Library.Word"
begin

unbundle bit_operations_syntax

section \<open>Build configuration\<close>

text \<open>
  \<^verbatim>\<open>floats.c\<close> is one source compiled several ways. Every preprocessor test that
  selects code in a function modelled below is a field of the record \<open>build\<close>:
  \<^item> \<open>kernel\<close>: \<^verbatim>\<open>defined(__FreeBSD__) && defined(_KERNEL)\<close>, the embedded back-end;
  \<^item> \<open>align_double\<close>: \<^verbatim>\<open>ARCH_ALIGN_DOUBLE\<close>;
  \<^item> \<open>high_word_first\<close>: \<^verbatim>\<open>defined(ARCH_BIG_ENDIAN) || (defined(__arm__) && !defined(__ARM_EABI__))\<close>,
    the targets that keep the most significant 32 bits of a double at the lower address;
  \<^item> \<open>broken_printf\<close>: \<^verbatim>\<open>HAS_BROKEN_PRINTF\<close>;
  \<^item> \<open>host_fpclassify\<close>:
    \<^verbatim>\<open>defined(fpclassify) && !defined(__CYGWIN32__) && !defined(__MINGW32__)\<close>.
\<close>

record build =
  kernel :: bool
  align_double :: bool
  high_word_first :: bool
  broken_printf :: bool
  host_fpclassify :: bool

section \<open>Doubles\<close>

text \<open>
  Modelled from the spec: the type \<^verbatim>\<open>__double\<close> and its native operators. The header that
  declares \<^verbatim>\<open>__double\<close> is not part of the sources at hand; the specification describes the
  value as an IEEE-754 double (sign, 11-bit exponent, 52-bit mantissa), so a double is its
  64-bit pattern, and \<^verbatim>\<open>==\<close>, \<^verbatim>\<open><\<close>, \<^verbatim>\<open><=\<close>, \<^verbatim>\<open>>\<close>, \<^verbatim>\<open>>=\<close>, \<^verbatim>\<open>!=\<close>, \<^verbatim>\<open>isnan\<close> and
  \<^verbatim>\<open>isfinite\<close> are the IEEE-754 operations on that pattern.
\<close>

type_synonym double = "64 word"

definition sign_bit :: "double \<Rightarrow> bool" where
  "sign_bit d = (2 ^ 63 \<le> unat d)"

definition exponent_field :: "double \<Rightarrow> nat" where
  "exponent_field d = (unat d div 2 ^ 52) mod 2 ^ 11"

definition mantissa_field :: "double \<Rightarrow> nat" where
  "mantissa_field d = unat d mod 2 ^ 52"

definition isnan :: "double \<Rightarrow> bool" where
  "isnan d = (exponent_field d = 2047 \<and> mantissa_field d \<noteq> 0)"

definition isfinite :: "double \<Rightarrow> bool" where
  "isfinite d = (exponent_field d \<noteq> 2047)"

text \<open>
  The order of the non-NaN doubles. The magnitude of a double grows with the 63 bits below
  its sign bit read as one number (the exponent field sits above the mantissa, and infinity
  has the largest exponent), so the signed magnitude \<open>order_key\<close> orders the doubles as
  their values do; both zeros have key 0.
\<close>

definition order_key :: "double \<Rightarrow> int" where
  "order_key d = (if sign_bit d then - int (unat d mod 2 ^ 63) else int (unat d mod 2 ^ 63))"

text \<open>
  The value of a finite double, times \<open>2 ^ 1074\<close>, is a whole number: the mantissa for a
  zero or subnormal, the mantissa with its leading bit, shifted by the exponent, for a
  normal number. The same formula places an infinity above every finite double. The
  lemma \<open>order_key_value\<close> below shows that \<open>order_key\<close> orders as these values do.
\<close>

definition scaled_magnitude :: "double \<Rightarrow> nat" where
  "scaled_magnitude d =
     (if exponent_field d = 0 then mantissa_field d
      else (2 ^ 52 + mantissa_field d) * 2 ^ (exponent_field d - 1))"

definition scaled_value :: "double \<Rightarrow> int" where
  "scaled_value d = (if sign_bit d then - int (scaled_magnitude d) else int (scaled_magnitude d))"

definition fp_eq :: "double \<Rightarrow> double \<Rightarrow> bool" where
  "fp_eq f g = (\<not> isnan f \<and> \<not> isnan g \<and> order_key f = order_key g)"

definition fp_lt :: "double \<Rightarrow> double \<Rightarrow> bool" where
  "fp_lt f g = (\<not> isnan f \<and> \<not> isnan g \<and> order_key f < order_key g)"

definition fp_le :: "double \<Rightarrow> double \<Rightarrow> bool" where
  "fp_le f g = (\<not> isnan f \<and> \<not> isnan g \<and> order_key f \<le> order_key g)"

definition fp_gt :: "double \<Rightarrow> double \<Rightarrow> bool" where
  "fp_gt f g = fp_lt g f"

definition fp_ge :: "double \<Rightarrow> double \<Rightarrow> bool" where
  "fp_ge f g = fp_le g f"

definition fp_ne :: "double \<Rightarrow> double \<Rightarrow> bool" where
  "fp_ne f g = (\<not> fp_eq f g)"

section \<open>The heap of the runtime\<close>

text \<open>
  Memory is an array of 32-bit units; a \<open>val\<close> that points to a block is the index of the
  block's first field. The double of a boxed float fills two units. \<open>hp_tag\<close> records the
  tag of the block that starts at an address, \<open>hp_free\<close> is the allocation pointer.
\<close>

type_synonym val = nat

datatype tag = Double_tag

record heap =
  hp_mem :: "val \<Rightarrow> 32 word"
  hp_tag :: "val \<Rightarrow> tag option"
  hp_free :: val

text \<open>
  The union \<^verbatim>\<open>union { value v[2]; __double d; }\<close>: the two words that overlay a double,
  \<^verbatim>\<open>v[0]\<close> at the lower address. Which half of the double is at the lower address is the
  target's word order.
\<close>

definition high_half :: "double \<Rightarrow> 32 word" where
  "high_half d = ucast (drop_bit 32 d)"

definition low_half :: "double \<Rightarrow> 32 word" where
  "low_half d = ucast d"

definition join_halves :: "32 word \<Rightarrow> 32 word \<Rightarrow> double" where
  "join_halves h l = push_bit 32 (ucast h) OR ucast l"

definition union_v :: "build \<Rightarrow> double \<Rightarrow> 32 word \<times> 32 word" where
  "union_v b d = (if high_word_first b then (high_half d, low_half d)
                  else (low_half d, high_half d))"

definition union_d :: "build \<Rightarrow> 32 word \<times> 32 word \<Rightarrow> double" where
  "union_d b v = (if high_word_first b then join_halves (fst v) (snd v)
                  else join_halves (snd v) (fst v))"

text \<open>\<^verbatim>\<open>Field(val, i)\<close> on a target with 32-bit values: read and write of the i-th word.\<close>

definition Field :: "heap \<Rightarrow> val \<Rightarrow> nat \<Rightarrow> 32 word" where
  "Field h v i = hp_mem h (v + i)"

definition set_Field :: "heap \<Rightarrow> val \<Rightarrow> nat \<Rightarrow> 32 word \<Rightarrow> heap" where
  "set_Field h v i w = h\<lparr>hp_mem := (hp_mem h)(v + i := w)\<rparr>"

text \<open>
  \<^verbatim>\<open>caml_Double_val\<close> and \<^verbatim>\<open>caml_Store_double_val\<close>, compiled under
  \<^verbatim>\<open>ARCH_ALIGN_DOUBLE\<close>: the double goes through the two words of the union.
\<close>

definition caml_Double_val :: "build \<Rightarrow> heap \<Rightarrow> val \<Rightarrow> double" where
  "caml_Double_val b h v =
     (let buffer_v0 = Field h v 0;
          buffer_v1 = Field h v 1
      in union_d b (buffer_v0, buffer_v1))"

definition caml_Store_double_val :: "build \<Rightarrow> heap \<Rightarrow> val \<Rightarrow> double \<Rightarrow> heap" where
  "caml_Store_double_val b h v dbl =
     (let buffer_v = union_v b dbl;
          h1 = set_Field h v 0 (fst buffer_v)
      in set_Field h1 v 1 (snd buffer_v))"

text \<open>
  Modelled from the spec: the macros \<^verbatim>\<open>Double_val\<close> and \<^verbatim>\<open>Store_double_val\<close> of
  \<^verbatim>\<open>mlvalues.h\<close>, which is not part of the sources at hand. With
  \<^verbatim>\<open>ARCH_ALIGN_DOUBLE\<close> they are the two functions above; without it they are the "direct
  pointer-cast access" of the specification: the double is read and written in place, its
  two halves in the target's word order.
\<close>

definition direct_load :: "build \<Rightarrow> heap \<Rightarrow> val \<Rightarrow> double" where
  "direct_load b h v =
     (if high_word_first b then join_halves (hp_mem h v) (hp_mem h (v + 1))
      else join_halves (hp_mem h (v + 1)) (hp_mem h v))"

definition direct_store :: "build \<Rightarrow> heap \<Rightarrow> val \<Rightarrow> double \<Rightarrow> heap" where
  "direct_store b h v d =
     (if high_word_first b
      then h\<lparr>hp_mem := (hp_mem h)(v := high_half d, v + 1 := low_half d)\<rparr>
      else h\<lparr>hp_mem := (hp_mem h)(v := low_half d, v + 1 := high_half d)\<rparr>)"

definition Double_val :: "build \<Rightarrow> heap \<Rightarrow> val \<Rightarrow> double" where
  "Double_val b h v = (if align_double b then caml_Double_val b h v else direct_load b h v)"

definition Store_double_val :: "build \<Rightarrow> heap \<Rightarrow> val \<Rightarrow> double \<Rightarrow> heap" where
  "Store_double_val b h v d =
     (if align_double b then caml_Store_double_val b h v d else direct_store b h v d)"

text \<open>
  Modelled from the spec: the macro \<^verbatim>\<open>Alloc_small\<close> of \<^verbatim>\<open>memory.h\<close>, which is not part of
  the sources at hand. It is the "host-provided allocator entry point": it returns a block
  that is not in use, here the block at the allocation pointer, one header unit and the
  two units of a double long, and tags it.
\<close>

definition Alloc_small_double :: "heap \<Rightarrow> val \<times> heap" where
  "Alloc_small_double h =
     (let res = hp_free h + 1
      in (res, h\<lparr>hp_tag := (hp_tag h)(res \<mapsto> Double_tag), hp_free := hp_free h + 3\<rparr>))"

definition caml_copy_double :: "build \<Rightarrow> heap \<Rightarrow> double \<Rightarrow> val \<times> heap" where
  "caml_copy_double b h d =
     (let (res, h1) = Alloc_small_double h
      in (res, Store_double_val b h1 res d))"

section \<open>Comparisons\<close>

text \<open>
  \<^verbatim>\<open>Val_bool\<close> and \<^verbatim>\<open>Val_int\<close> (of \<^verbatim>\<open>mlvalues.h\<close>) inject a C truth value and a C integer
  into the runtime's immediate values; the model returns the \<open>bool\<close> and the \<open>int\<close>.
  Each predicate has one body per back-end, as the source has.
\<close>

definition caml_eq_float :: "build \<Rightarrow> heap \<Rightarrow> val \<Rightarrow> val \<Rightarrow> bool" where
  "caml_eq_float b h f g =
     (if kernel b then fp_eq (Double_val b h f) (Double_val b h g)
      else fp_eq (Double_val b h f) (Double_val b h g))"

definition caml_neq_float :: "build \<Rightarrow> heap \<Rightarrow> val \<Rightarrow> val \<Rightarrow> bool" where
  "caml_neq_float b h f g =
     (if kernel b then fp_ne (Double_val b h f) (Double_val b h g)
      else fp_ne (Double_val b h f) (Double_val b h g))"

definition caml_le_float :: "build \<Rightarrow> heap \<Rightarrow> val \<Rightarrow> val \<Rightarrow> bool" where
  "caml_le_float b h f g =
     (if kernel b then fp_le (Double_val b h f) (Double_val b h g)
      else fp_le (Double_val b h f) (Double_val b h g))"

definition caml_lt_float :: "build \<Rightarrow> heap \<Rightarrow> val \<Rightarrow> val \<Rightarrow> bool" where
  "caml_lt_float b h f g =
     (if kernel b then fp_le (Double_val b h f) (Double_val b h g)
      else fp_lt (Double_val b h f) (Double_val b h g))"

definition caml_ge_float :: "build \<Rightarrow> heap \<Rightarrow> val \<Rightarrow> val \<Rightarrow> bool" where
  "caml_ge_float b h f g =
     (if kernel b then fp_ge (Double_val b h f) (Double_val b h g)
      else fp_ge (Double_val b h f) (Double_val b h g))"

definition caml_gt_float :: "build \<Rightarrow> heap \<Rightarrow> val \<Rightarrow> val \<Rightarrow> bool" where
  "caml_gt_float b h f g =
     (if kernel b then fp_gt (Double_val b h f) (Double_val b h g)
      else fp_gt (Double_val b h f) (Double_val b h g))"

text \<open>
  \<^verbatim>\<open>caml_float_compare\<close>. The two tests that would order a NaN against a number are
  compiled out (\<^verbatim>\<open>#if 0\<close>), so the last return is reached whenever an operand is NaN.
\<close>

definition caml_float_compare :: "build \<Rightarrow> heap \<Rightarrow> val \<Rightarrow> val \<Rightarrow> int" where
  "caml_float_compare b h vf vg =
     (let f = Double_val b h vf;
          g = Double_val b h vg
      in if fp_eq f g then 0
         else if fp_lt f g then - 1
         else if fp_gt f g then 1
         else 0)"

section \<open>Classification\<close>

text \<open>\<^verbatim>\<open>enum { FP_normal, FP_subnormal, FP_zero, FP_infinite, FP_nan }\<close>, in this order.\<close>

datatype fp_code = FP_normal | FP_subnormal | FP_zero | FP_infinite | FP_nan

text \<open>
  The classification the specification describes, by the exponent and mantissa fields of
  the 64-bit pattern.
\<close>

definition ieee_class :: "double \<Rightarrow> fp_code" where
  "ieee_class d =
     (if exponent_field d = 0 then (if mantissa_field d = 0 then FP_zero else FP_subnormal)
      else if exponent_field d = 2047 then (if mantissa_field d = 0 then FP_infinite else FP_nan)
      else FP_normal)"

text \<open>
  Modelled from the spec: the host's \<^verbatim>\<open>fpclassify\<close> and its result macros
  (\<^verbatim>\<open>math.h\<close>), "a host-provided classification primitive" whose "behavior must be
  identical" to the inspection of the bit pattern.
\<close>

datatype host_class = C_FP_NAN | C_FP_INFINITE | C_FP_ZERO | C_FP_SUBNORMAL | C_FP_NORMAL

definition fpclassify :: "double \<Rightarrow> host_class" where
  "fpclassify d =
     (case ieee_class d of
        FP_nan \<Rightarrow> C_FP_NAN
      | FP_infinite \<Rightarrow> C_FP_INFINITE
      | FP_zero \<Rightarrow> C_FP_ZERO
      | FP_subnormal \<Rightarrow> C_FP_SUBNORMAL
      | FP_normal \<Rightarrow> C_FP_NORMAL)"

text \<open>
  \<^verbatim>\<open>union double_as_two_int32\<close>: the struct overlays the two words of the double, and the
  order of its fields \<^verbatim>\<open>h\<close> and \<^verbatim>\<open>l\<close> is chosen by the same test as the word order.
\<close>

definition two_int32_h :: "build \<Rightarrow> double \<Rightarrow> 32 word" where
  "two_int32_h b d = (if high_word_first b then fst (union_v b d) else snd (union_v b d))"

definition two_int32_l :: "build \<Rightarrow> double \<Rightarrow> 32 word" where
  "two_int32_l b d = (if high_word_first b then snd (union_v b d) else fst (union_v b d))"

text \<open>\<^verbatim>\<open>caml_classify_float\<close>: three bodies, selected in the order of the source.\<close>

definition caml_classify_float :: "build \<Rightarrow> heap \<Rightarrow> val \<Rightarrow> fp_code" where
  "caml_classify_float b hp vd =
     (if host_fpclassify b then
        (case fpclassify (Double_val b hp vd) of
           C_FP_NAN \<Rightarrow> FP_nan
         | C_FP_INFINITE \<Rightarrow> FP_infinite
         | C_FP_ZERO \<Rightarrow> FP_zero
         | C_FP_SUBNORMAL \<Rightarrow> FP_subnormal
         | _ \<Rightarrow> FP_normal)
      else if kernel b then
        (let d = Double_val b hp vd
         in if fp_eq d 0 then FP_zero else FP_normal)
      else
        (let u_d = Double_val b hp vd;
             h0 = two_int32_h b u_d;
             l0 = two_int32_l b u_d;
             l = l0 OR (h0 AND 0xFFFFF);
             h = h0 AND 0x7FF00000
         in if (h OR l) = 0 then FP_zero
            else if h = 0 then FP_subnormal
            else if h = 0x7FF00000 then (if l = 0 then FP_infinite else FP_nan)
            else FP_normal))"

section \<open>The native library\<close>

text \<open>
  The functions of the C library and of the fixed-point library that \<^verbatim>\<open>floats.c\<close> calls
  for text conversion are parameters of the model:
  \<^item> \<open>nat_sprintf fmt d\<close>: the text \<^verbatim>\<open>sprintf(dest, fmt, d)\<close> writes;
  \<^item> \<open>nat_fixpt_to_str d n\<close>: the text \<^verbatim>\<open>fixpt_to_str(d, dest, n)\<close> writes;
  \<^item> \<open>nat_strtod s\<close> and \<open>nat_fixpt_strtod s\<close>: the value the parser returns on the C
    string \<open>s\<close>, and the offset in \<open>s\<close> of the position it stores in \<^verbatim>\<open>end\<close>.
\<close>

record natives =
  nat_sprintf :: "string \<Rightarrow> double \<Rightarrow> string"
  nat_fixpt_to_str :: "double \<Rightarrow> int \<Rightarrow> string"
  nat_strtod :: "string \<Rightarrow> double \<times> nat"
  nat_fixpt_strtod :: "string \<Rightarrow> double \<times> nat"

text \<open>A C string ends at its first NUL: what a native function sees of a buffer.\<close>

definition c_string :: "string \<Rightarrow> string" where
  "c_string buf = takeWhile (\<lambda>c. c \<noteq> CHR 0x00) buf"

definition isspace :: "char \<Rightarrow> bool" where
  "isspace c = (c = CHR '' '' \<or> (9 :: nat) \<le> of_char c \<and> of_char c \<le> (13 :: nat))"

definition isdigit :: "char \<Rightarrow> bool" where
  "isdigit c = ((48 :: nat) \<le> of_char c \<and> of_char c \<le> (57 :: nat))"

definition digit_val :: "char \<Rightarrow> nat" where
  "digit_val c = of_char c - 48"

definition digits_val :: "string \<Rightarrow> nat" where
  "digits_val ds = foldl (\<lambda>a c. 10 * a + digit_val c) 0 ds"

text \<open>Optional sign: whether it is a minus, and the text after it.\<close>

definition opt_sign :: "string \<Rightarrow> bool \<times> string" where
  "opt_sign s =
     (case s of
        [] \<Rightarrow> (False, [])
      | c # cs \<Rightarrow> if c = CHR ''-'' then (True, cs)
                 else if c = CHR ''+'' then (False, cs)
                 else (False, s))"

text \<open>\<^verbatim>\<open>atoi\<close> of the C library (within the range of \<^verbatim>\<open>int\<close>).\<close>

definition atoi :: "string \<Rightarrow> int" where
  "atoi s =
     (let (neg, r) = opt_sign (dropWhile isspace s);
          n = int (digits_val (takeWhile isdigit r))
      in if neg then - n else n)"

section \<open>Formatting\<close>

definition MAX_DIGITS :: int where
  "MAX_DIGITS = 350"

text \<open>
  The two scanning loops of \<^verbatim>\<open>caml_format_float\<close>: \<^verbatim>\<open>p\<close> stops at the first digit of the
  format, then at the first \<^verbatim>\<open>'.'\<close> from there; each stop may raise \<^verbatim>\<open>prec\<close>.
\<close>

definition format_prec :: "string \<Rightarrow> int" where
  "format_prec fmt =
     (let p1 = dropWhile (\<lambda>c. \<not> isdigit c) (c_string fmt);
          prec1 = (if p1 \<noteq> [] \<and> atoi p1 + MAX_DIGITS > MAX_DIGITS
                   then atoi p1 + MAX_DIGITS else MAX_DIGITS);
          p2 = dropWhile (\<lambda>c. c \<noteq> CHR ''.'') p1;
          prec2 = (if p2 \<noteq> [] \<and> atoi (tl p2) + MAX_DIGITS > prec1
                   then atoi (tl p2) + MAX_DIGITS else prec1)
      in prec2)"

text \<open>
  The rendering of a double through the formatter of the back-end. The destination is the
  local buffer or a block from \<^verbatim>\<open>caml_stat_alloc\<close>, by \<^verbatim>\<open>prec\<close>; the text written is the
  same. \<^verbatim>\<open>caml_copy_string\<close> (of \<^verbatim>\<open>alloc.h\<close>) makes the runtime's string of the text; the
  model returns the text.
\<close>

definition render_float :: "build \<Rightarrow> natives \<Rightarrow> string \<Rightarrow> double \<Rightarrow> string" where
  "render_float b nv fmt d =
     (let prec = format_prec fmt
      in if kernel b
         then nat_fixpt_to_str nv d (if prec > MAX_DIGITS then prec - MAX_DIGITS else MAX_DIGITS)
         else nat_sprintf nv (c_string fmt) d)"

definition caml_format_float :: "build \<Rightarrow> natives \<Rightarrow> heap \<Rightarrow> string \<Rightarrow> val \<Rightarrow> string" where
  "caml_format_float b nv hp fmt arg =
     (let d = Double_val b hp arg
      in if broken_printf b then
           (if isfinite d then render_float b nv fmt d
            else if isnan d then ''nan''
            else if fp_gt d 0 then ''inf''
            else ''-inf'')
         else render_float b nv fmt d)"

section \<open>Parsing\<close>

text \<open>
  \<^verbatim>\<open>caml_failwith(msg)\<close> raises the runtime's failure condition with the tag \<open>msg\<close>.
  \<open>Read_outside_string\<close> is no condition of the runtime: it marks a read of the copying
  loop that leaves the bytes of the string.
\<close>

datatype error = Failure string | Read_outside_string

text \<open>
  The copying loop \<^verbatim>\<open>while (len--) { char c = *src++; if (c != '_') *dst++ = c; }\<close>:
  \<open>src\<close> is the offset of the read pointer in the string, \<open>dst\<close> the text written to the
  buffer so far.
\<close>

fun copy_loop :: "string \<Rightarrow> int \<Rightarrow> nat \<Rightarrow> string \<Rightarrow> error + string" where
  "copy_loop vs src 0 dst = Inr dst"
| "copy_loop vs src (Suc len) dst =
     (if 0 \<le> src \<and> src < int (length vs)
      then (let c = vs ! nat src
            in copy_loop vs (src + 1) len (if c \<noteq> CHR ''_'' then dst @ [c] else dst))
      else Inl Read_outside_string)"

text \<open>
  From \<^verbatim>\<open>*dst = 0\<close> to the end, the same text in both parsing functions: the buffer is
  terminated, an empty buffer fails, the parser of the back-end (\<^verbatim>\<open>fixpt_strtod\<close> in the
  kernel, \<^verbatim>\<open>strtod\<close> otherwise) runs on the buffer, and the result is boxed only if the
  parser stopped at \<^verbatim>\<open>dst\<close>. The buffer is the local one or
  a block from \<^verbatim>\<open>caml_stat_alloc\<close>, which both exits free.
\<close>

definition native_parser :: "build \<Rightarrow> natives \<Rightarrow> string \<Rightarrow> double \<times> nat" where
  "native_parser b nv = (if kernel b then nat_fixpt_strtod nv else nat_strtod nv)"

definition parse_buffer :: "build \<Rightarrow> natives \<Rightarrow> heap \<Rightarrow> string \<Rightarrow> error + val \<times> heap" where
  "parse_buffer b nv hp dst =
     (if dst = [] then Inl (Failure ''float_of_string'')
      else (let (d, end) = native_parser b nv (c_string dst)
            in if end \<noteq> length dst then Inl (Failure ''float_of_string'')
               else Inr (caml_copy_double b hp d)))"

definition caml_float_of_string :: "build \<Rightarrow> natives \<Rightarrow> heap \<Rightarrow> string \<Rightarrow> error + val \<times> heap" where
  "caml_float_of_string b nv hp vs =
     (let len = length vs
      in case copy_loop vs 0 len [] of
           Inl e \<Rightarrow> Inl e
         | Inr dst \<Rightarrow> parse_buffer b nv hp dst)"

text \<open>
  \<^verbatim>\<open>caml_float_of_substring\<close>. \<open>idx\<close> and \<open>l\<close> are the machine integers \<^verbatim>\<open>Long_val(idx)\<close>
  and \<^verbatim>\<open>Long_val(l)\<close> (\<^verbatim>\<open>intnat\<close>, signed), \<open>lenvs\<close> and \<open>len\<close> are \<^verbatim>\<open>mlsize_t\<close>
  (unsigned, of the same width): \<^verbatim>\<open>fidx >= 0\<close> and \<^verbatim>\<open>flen > 0\<close> compare signed, the two
  comparisons with an unsigned operand compare unsigned, and the subtraction wraps.
\<close>

definition caml_float_of_substring ::
  "build \<Rightarrow> natives \<Rightarrow> heap \<Rightarrow> string \<Rightarrow> 'w::len word \<Rightarrow> 'w word \<Rightarrow> error + val \<times> heap" where
  "caml_float_of_substring b nv hp vs idx l =
     (let flen = l;
          fidx = idx;
          lenvs = (of_nat (length vs) :: 'w word);
          len = (if 0 \<le> sint fidx \<and> fidx < lenvs \<and> 0 < sint flen \<and> flen \<le> lenvs - fidx
                 then flen else 0)
      in case copy_loop vs (sint fidx) (unat len) [] of
           Inl e \<Rightarrow> Inl e
         | Inr dst \<Rightarrow> parse_buffer b nv hp dst)"

section \<open>The parser of the C library\<close>

text \<open>
  \<^verbatim>\<open>strtod\<close> as ISO C defines it in the "C" locale, with correct rounding. It skips white
  space, then takes the longest text that is an optional sign and a decimal number, a
  hexadecimal number, an infinity or a NaN; with no such text nothing is consumed and the
  value is zero. The theorems below hold for every parser; this one stands for
  \<open>nat_strtod\<close> where a theorem is applied to a concrete text.
\<close>

definition isxdigit :: "char \<Rightarrow> bool" where
  "isxdigit c = (isdigit c \<or> (97 :: nat) \<le> of_char c \<and> of_char c \<le> (102 :: nat)
                 \<or> (65 :: nat) \<le> of_char c \<and> of_char c \<le> (70 :: nat))"

definition xdigit_val :: "char \<Rightarrow> nat" where
  "xdigit_val c = (if isdigit c then of_char c - 48
                   else if (97 :: nat) \<le> of_char c then of_char c - 87
                   else of_char c - 55)"

definition xdigits_val :: "string \<Rightarrow> nat" where
  "xdigits_val ds = foldl (\<lambda>a c. 16 * a + xdigit_val c) 0 ds"

definition tolower :: "char \<Rightarrow> char" where
  "tolower c = (if (65 :: nat) \<le> of_char c \<and> of_char c \<le> (90 :: nat)
                then char_of (of_char c + (32 :: nat)) else c)"

definition is_nchar :: "char \<Rightarrow> bool" where
  "is_nchar c = (isdigit c \<or> c = CHR ''_''
                 \<or> (97 :: nat) \<le> of_char (tolower c) \<and> of_char (tolower c) \<le> (122 :: nat))"

text \<open>The number of binary digits of a number.\<close>

fun bit_length :: "nat \<Rightarrow> nat" where
  "bit_length n = (if n = 0 then 0 else Suc (bit_length (n div 2)))"

declare bit_length.simps [simp del]

text \<open>The integer nearest to \<open>n / d\<close>, the even one of two that are equally near.\<close>

definition round_half_even :: "nat \<Rightarrow> nat \<Rightarrow> nat" where
  "round_half_even n d =
     (let q = n div d; r = n mod d
      in if 2 * r < d then q
         else if d < 2 * r then q + 1
         else if even q then q else q + 1)"

text \<open>
  The double nearest to the positive ratio \<open>n / d\<close>. \<open>e\<close> is the binary exponent of the
  ratio; the ratio is rounded to a multiple of \<open>2 ^ q\<close>, the unit in the last place of
  its binade or of the subnormal range. Adding the rounded mantissa (with its leading
  bit) to the exponent field lets a mantissa that rounds up to the next power of two carry
  into the exponent; a pattern from the exponent field 2047 on is an overflow, to infinity.
\<close>

definition double_of_ratio :: "nat \<Rightarrow> nat \<Rightarrow> double" where
  "double_of_ratio n d =
     (if n = 0 then 0
      else (let e0 = int (bit_length n) - int (bit_length d);
                e = (if d * 2 ^ nat e0 \<le> n * 2 ^ nat (- e0) then e0 else e0 - 1);
                q = max e (- 1022) - 52;
                m = round_half_even (n * 2 ^ nat (- q)) (d * 2 ^ nat q);
                enc = nat (max e (- 1022) + 1022) * 2 ^ 52 + m
            in if 0x7FF0000000000000 \<le> enc then 0x7FF0000000000000 else of_nat enc))"

definition with_sign :: "bool \<Rightarrow> double \<Rightarrow> double" where
  "with_sign neg d = (if neg then d OR 0x8000000000000000 else d)"

text \<open>The double nearest to \<open>m * base ^ e\<close>, with its sign.\<close>

definition scaled_double :: "bool \<Rightarrow> nat \<Rightarrow> nat \<Rightarrow> int \<Rightarrow> double" where
  "scaled_double neg m base e =
     with_sign neg (if 0 \<le> e then double_of_ratio (m * base ^ nat e) 1
                    else double_of_ratio m (base ^ nat (- e)))"

text \<open>
  Digits with an optional radix character among them, at least one digit in all: the
  digits before and after the radix character and the number of characters taken.
\<close>

definition mantissa_part :: "(char \<Rightarrow> bool) \<Rightarrow> string \<Rightarrow> (string \<times> string \<times> nat) option" where
  "mantissa_part isd s =
     (let ip = takeWhile isd s
      in case dropWhile isd s of
           [] \<Rightarrow> if ip = [] then None else Some (ip, [], length ip)
         | c # cs \<Rightarrow>
             if c = CHR ''.'' then
               (let fp = takeWhile isd cs
                in if ip = [] \<and> fp = [] then None
                   else Some (ip, fp, length ip + 1 + length fp))
             else if ip = [] then None else Some (ip, [], length ip))"

text \<open>
  An optional exponent part, introduced by the letter \<open>m\<close> in either case: its value and
  the number of characters taken, none when no digit follows.
\<close>

definition exponent_part :: "char \<Rightarrow> string \<Rightarrow> int \<times> nat" where
  "exponent_part m s =
     (case s of
        [] \<Rightarrow> (0, 0)
      | c # cs \<Rightarrow>
          if tolower c = m then
            (let (neg, r) = opt_sign cs;
                 ds = takeWhile isdigit r
             in if ds = [] then (0, 0)
                else (if neg then - int (digits_val ds) else int (digits_val ds),
                      1 + (length cs - length r) + length ds))
          else (0, 0))"

definition decimal_number :: "bool \<Rightarrow> string \<Rightarrow> (double \<times> nat) option" where
  "decimal_number neg s =
     (case mantissa_part isdigit s of
        None \<Rightarrow> None
      | Some (ip, fp, n) \<Rightarrow>
          (let (e, k) = exponent_part (CHR ''e'') (drop n s)
           in Some (scaled_double neg (digits_val (ip @ fp)) 10 (e - int (length fp)), n + k)))"

definition hex_number :: "bool \<Rightarrow> string \<Rightarrow> (double \<times> nat) option" where
  "hex_number neg s =
     (case s of
        c0 # cx # r \<Rightarrow>
          if c0 = CHR ''0'' \<and> tolower cx = CHR ''x'' then
            (case mantissa_part isxdigit r of
               None \<Rightarrow> None
             | Some (ip, fp, n) \<Rightarrow>
                 (let (e, k) = exponent_part (CHR ''p'') (drop n r)
                  in Some (scaled_double neg (xdigits_val (ip @ fp)) 2 (e - 4 * int (length fp)),
                           2 + n + k)))
          else None
      | _ \<Rightarrow> None)"

text \<open>The characters of an optional \<^verbatim>\<open>(n-char-sequence)\<close> after \<^verbatim>\<open>nan\<close>.\<close>

definition nan_tail :: "string \<Rightarrow> nat" where
  "nan_tail s =
     (case s of
        [] \<Rightarrow> 0
      | c # cs \<Rightarrow>
          if c = CHR ''('' then
            (case dropWhile is_nchar cs of
               [] \<Rightarrow> 0
             | c' # _ \<Rightarrow> if c' = CHR '')'' then length (takeWhile is_nchar cs) + 2 else 0)
          else 0)"

definition inf_nan :: "bool \<Rightarrow> string \<Rightarrow> (double \<times> nat) option" where
  "inf_nan neg s =
     (if map tolower (take 8 s) = ''infinity'' then Some (with_sign neg 0x7FF0000000000000, 8)
      else if map tolower (take 3 s) = ''inf'' then Some (with_sign neg 0x7FF0000000000000, 3)
      else if map tolower (take 3 s) = ''nan''
        then Some (with_sign neg 0x7FF8000000000000, 3 + nan_tail (drop 3 s))
      else None)"

definition subject_sequence :: "bool \<Rightarrow> string \<Rightarrow> (double \<times> nat) option" where
  "subject_sequence neg r =
     (case hex_number neg r of
        Some x \<Rightarrow> Some x
      | None \<Rightarrow> (case decimal_number neg r of
                   Some x \<Rightarrow> Some x
                 | None \<Rightarrow> inf_nan neg r))"

definition strtod :: "string \<Rightarrow> double \<times> nat" where
  "strtod s =
     (let r0 = dropWhile isspace s;
          (neg, r) = opt_sign r0
      in case subject_sequence neg r of
           None \<Rightarrow> (0, 0)
         | Some (d, n) \<Rightarrow> (d, (length s - length r) + n))"

text \<open>The hosted native library, as far as parsing goes; the other natives are stubs.\<close>

definition libc :: natives where
  "libc = \<lparr>nat_sprintf = (\<lambda>fmt d. []), nat_fixpt_to_str = (\<lambda>d n. []),
           nat_strtod = strtod, nat_fixpt_strtod = (\<lambda>s. (0, 0))\<rparr>"

section \<open>Builds and inputs of the examples\<close>

definition hosted :: build where
  "hosted = \<lparr>kernel = False, align_double = False, high_word_first = False,
     broken_printf = False, host_fpclassify = False\<rparr>"

definition in_kernel :: build where
  "in_kernel = \<lparr>kernel = True, align_double = False, high_word_first = False,
     broken_printf = False, host_fpclassify = False\<rparr>"

definition empty_heap :: heap where
  "empty_heap = \<lparr>hp_mem = (\<lambda>_. 0), hp_tag = (\<lambda>_. None), hp_free = 0\<rparr>"

text \<open>The heap after boxing the doubles of a list, one after the other: at 1, 4, 7, ...\<close>

fun box_all :: "build \<Rightarrow> heap \<Rightarrow> double list \<Rightarrow> heap" where
  "box_all b h [] = h"
| "box_all b h (d # ds) = box_all b (snd (caml_copy_double b h d)) ds"

section \<open>Assumptions on a native parser\<close>

text \<open>
  Three properties of \<^verbatim>\<open>strtod\<close> that the behaviour of the parsing functions on white
  space rests on: the parser stops inside the text; white space before a text that
  converts is skipped and changes nothing else; and a text that ends in white space is
  never consumed to its end.
\<close>

definition skips_leading_space :: "(string \<Rightarrow> double \<times> nat) \<Rightarrow> bool" where
  "skips_leading_space p =
     (\<forall>ws s. (\<forall>c \<in> set ws. isspace c) \<and> snd (p s) \<noteq> 0
        \<longrightarrow> p (ws @ s) = (fst (p s), length ws + snd (p s)))"

definition stops_before_space :: "(string \<Rightarrow> double \<times> nat) \<Rightarrow> bool" where
  "stops_before_space p =
     ((\<forall>s. snd (p s) \<le> length s)
      \<and> (\<forall>s. s \<noteq> [] \<and> isspace (last s) \<longrightarrow> snd (p s) \<noteq> length s))"

section \<open>The order of the doubles\<close>

lemma magnitude_fields:
  "unat d mod 2 ^ 63 = exponent_field d * 2 ^ 52 + mantissa_field d"
proof -
  have "unat d mod 2 ^ 63 = (unat d div 2 ^ 52 mod 2 ^ 11) * 2 ^ 52 + unat d mod 2 ^ 52"
    by (simp add: mod_mult2_eq [of "unat d" "2 ^ 52" "2 ^ 11", simplified])
  then show ?thesis by (simp add: exponent_field_def mantissa_field_def)
qed

lemma mantissa_field_less: "mantissa_field d < 2 ^ 52"
  by (simp add: mantissa_field_def)

lemma scaled_less:
  assumes m1: "m1 < (2 :: nat) ^ 52" and m2: "m2 < (2 :: nat) ^ 52"
    and lt: "e1 * 2 ^ 52 + m1 < e2 * 2 ^ 52 + m2"
  shows "(if e1 = 0 then m1 else (2 ^ 52 + m1) * 2 ^ (e1 - 1))
       < (if e2 = 0 then m2 else (2 ^ 52 + m2) * 2 ^ (e2 - 1))"
proof -
  let ?v1 = "if e1 = 0 then m1 else (2 ^ 52 + m1) * 2 ^ (e1 - 1)"
  let ?v2 = "if e2 = 0 then m2 else (2 ^ 52 + m2) * 2 ^ (e2 - 1)"
  have le: "e1 \<le> e2"
  proof (rule ccontr)
    assume "\<not> e1 \<le> e2"
    then have "Suc e2 \<le> e1" by simp
    then have "Suc e2 * 2 ^ 52 \<le> e1 * 2 ^ 52" by (rule mult_le_mono1)
    with m2 lt show False by simp
  qed
  show ?thesis
  proof (cases "e1 = e2")
    case True
    with lt have "m1 < m2" by simp
    with True show ?thesis by simp
  next
    case False
    with le have e: "e1 < e2" by simp
    have up: "?v1 < 2 ^ (52 + e1)"
    proof (cases "e1 = 0")
      case True
      with m1 show ?thesis by simp
    next
      case False
      have "(2 ^ 52 + m1) * 2 ^ (e1 - 1) < (2 ^ 52 + 2 ^ 52) * 2 ^ (e1 - 1)"
        using m1 by simp
      also have "\<dots> = 2 ^ (53 + (e1 - 1))" by (simp add: power_add)
      also have "\<dots> = 2 ^ (52 + e1)" using False by simp
      finally show ?thesis using False by simp
    qed
    have "(2 :: nat) ^ (52 + e1) \<le> 2 ^ (52 + (e2 - 1))"
      using e by (intro power_increasing) simp_all
    also have "\<dots> = 2 ^ 52 * 2 ^ (e2 - 1)" by (simp add: power_add)
    also have "\<dots> \<le> (2 ^ 52 + m2) * 2 ^ (e2 - 1)" by simp
    also have "\<dots> = ?v2" using e by simp
    finally show ?thesis using up by simp
  qed
qed

lemma magnitude_less_iff:
  "unat f mod 2 ^ 63 < unat g mod 2 ^ 63 \<longleftrightarrow> scaled_magnitude f < scaled_magnitude g"
proof
  assume "unat f mod 2 ^ 63 < unat g mod 2 ^ 63"
  then show "scaled_magnitude f < scaled_magnitude g"
    unfolding magnitude_fields scaled_magnitude_def
    by (intro scaled_less mantissa_field_less)
next
  assume a: "scaled_magnitude f < scaled_magnitude g"
  show "unat f mod 2 ^ 63 < unat g mod 2 ^ 63"
  proof (rule ccontr)
    assume "\<not> unat f mod 2 ^ 63 < unat g mod 2 ^ 63"
    then consider "unat g mod 2 ^ 63 < unat f mod 2 ^ 63" | "unat g mod 2 ^ 63 = unat f mod 2 ^ 63"
      by linarith
    then show False
    proof cases
      case 1
      then have "scaled_magnitude g < scaled_magnitude f"
        unfolding magnitude_fields scaled_magnitude_def
        by (intro scaled_less mantissa_field_less)
      with a show False by simp
    next
      case 2
      then have "exponent_field g * 2 ^ 52 + mantissa_field g
          = exponent_field f * 2 ^ 52 + mantissa_field f"
        by (simp only: magnitude_fields)
      moreover have "(exponent_field g * 2 ^ 52 + mantissa_field g) div 2 ^ 52 = exponent_field g"
        using mantissa_field_less [of g] by simp
      moreover have "(exponent_field f * 2 ^ 52 + mantissa_field f) div 2 ^ 52 = exponent_field f"
        using mantissa_field_less [of f] by simp
      ultimately have "exponent_field g = exponent_field f \<and> mantissa_field g = mantissa_field f"
        by (metis add_left_cancel)
      then have "scaled_magnitude g = scaled_magnitude f"
        unfolding scaled_magnitude_def by presburger
      with a show False by simp
    qed
  qed
qed

lemma magnitude_eq_iff:
  "unat f mod 2 ^ 63 = unat g mod 2 ^ 63 \<longleftrightarrow> scaled_magnitude f = scaled_magnitude g"
  using magnitude_less_iff [of f g] magnitude_less_iff [of g f] by linarith

lemma magnitude_zero_iff: "unat f mod 2 ^ 63 = 0 \<longleftrightarrow> scaled_magnitude f = 0"
  using magnitude_eq_iff [of f 0]
  by (simp add: scaled_magnitude_def exponent_field_def mantissa_field_def)

lemma signed_less_iff:
  fixes a b c d :: nat
  assumes "a < b \<longleftrightarrow> c < d" and "b < a \<longleftrightarrow> d < c"
    and "a = 0 \<longleftrightarrow> c = 0" and "b = 0 \<longleftrightarrow> d = 0"
  shows "(if s then - int a else int a) < (if t then - int b else int b)
     \<longleftrightarrow> (if s then - int c else int c) < (if t then - int d else int d)"
proof -
  have pn: "- int x < int y \<longleftrightarrow> \<not> (x = 0 \<and> y = 0)" for x y :: nat by linarith
  have np: "\<not> int x < - int y \<or> False" for x y :: nat by linarith
  show ?thesis
    using assms np by (cases s; cases t) (simp_all add: pn)
qed

lemma signed_eq_iff:
  fixes a b c d :: nat
  assumes "a = b \<longleftrightarrow> c = d" and "a = 0 \<longleftrightarrow> c = 0" and "b = 0 \<longleftrightarrow> d = 0"
  shows "(if s then - int a else int a) = (if t then - int b else int b)
     \<longleftrightarrow> (if s then - int c else int c) = (if t then - int d else int d)"
proof -
  have pn: "- int x = int y \<longleftrightarrow> x = 0 \<and> y = 0" for x y :: nat by linarith
  have np: "int x = - int y \<longleftrightarrow> x = 0 \<and> y = 0" for x y :: nat by linarith
  show ?thesis
    using assms by (cases s; cases t) (simp_all add: pn np)
qed

lemma order_key_value:
  "order_key f < order_key g \<longleftrightarrow> scaled_value f < scaled_value g"
  "order_key f = order_key g \<longleftrightarrow> scaled_value f = scaled_value g"
proof -
  show "order_key f < order_key g \<longleftrightarrow> scaled_value f < scaled_value g"
    unfolding order_key_def scaled_value_def
    by (rule signed_less_iff [OF magnitude_less_iff magnitude_less_iff
          magnitude_zero_iff magnitude_zero_iff])
  show "order_key f = order_key g \<longleftrightarrow> scaled_value f = scaled_value g"
    unfolding order_key_def scaled_value_def
    by (rule signed_eq_iff [OF magnitude_eq_iff magnitude_zero_iff magnitude_zero_iff])
qed

lemma fp_lt_value:
  "fp_lt f g \<longleftrightarrow> \<not> isnan f \<and> \<not> isnan g \<and> scaled_value f < scaled_value g"
  by (simp add: fp_lt_def order_key_value)

lemma fp_eq_value:
  "fp_eq f g \<longleftrightarrow> \<not> isnan f \<and> \<not> isnan g \<and> scaled_value f = scaled_value g"
  by (simp add: fp_eq_def order_key_value)

section \<open>Boxing and unboxing\<close>

lemma join_halves_split: "join_halves (high_half d) (low_half d) = d"
  unfolding join_halves_def high_half_def low_half_def
  by (rule bit_word_eqI) (auto simp: bit_simps)

lemma union_d_union_v: "union_d b (union_v b d) = d"
  by (simp add: union_d_def union_v_def join_halves_split)

lemma caml_Double_val_Store: "caml_Double_val b (caml_Store_double_val b h v d) v = d"
proof -
  have "Field (caml_Store_double_val b h v d) v 0 = fst (union_v b d)"
    by (simp add: caml_Store_double_val_def Field_def set_Field_def Let_def)
  moreover have "Field (caml_Store_double_val b h v d) v 1 = snd (union_v b d)"
    by (simp add: caml_Store_double_val_def Field_def set_Field_def Let_def)
  ultimately show ?thesis
    by (simp add: caml_Double_val_def Let_def union_d_union_v)
qed

lemma direct_load_store: "direct_load b (direct_store b h v d) v = d"
  by (simp add: direct_load_def direct_store_def join_halves_split)

lemma Double_val_Store: "Double_val b (Store_double_val b h v d) v = d"
  by (simp add: Double_val_def Store_double_val_def caml_Double_val_Store direct_load_store)

lemma Double_val_copy:
  "Double_val b (snd (caml_copy_double b h d)) (fst (caml_copy_double b h d)) = d"
  by (simp add: caml_copy_double_def Alloc_small_double_def Let_def Double_val_Store)

lemma hp_tag_Store: "hp_tag (Store_double_val b h v d) = hp_tag h"
  by (simp add: Store_double_val_def caml_Store_double_val_def direct_store_def
      set_Field_def Let_def)

lemma hp_tag_copy:
  "hp_tag (snd (caml_copy_double b h d)) (fst (caml_copy_double b h d)) = Some Double_tag"
  by (simp add: caml_copy_double_def Alloc_small_double_def Let_def hp_tag_Store)

text \<open>
  C1. For every double \<open>d\<close>, every heap and every build, the block that
  \<open>caml_copy_double\<close> returns is tagged as a double and \<open>Double_val\<close> reads from it the
  64-bit pattern \<open>d\<close> again; on a build with \<^verbatim>\<open>ARCH_ALIGN_DOUBLE\<close> the store is
  \<open>caml_Store_double_val\<close> and the load is \<open>caml_Double_val\<close>, through two machine
  words, and they give the same pattern back in either word order.
\<close>

theorem boxed_double_roundtrip:
  "Double_val b (snd (caml_copy_double b h d)) (fst (caml_copy_double b h d)) = d
   \<and> hp_tag (snd (caml_copy_double b h d)) (fst (caml_copy_double b h d)) = Some Double_tag
   \<and> caml_Double_val b (caml_Store_double_val b h v d) v = d
   \<and> caml_Double_val (b\<lparr>align_double := True\<rparr>)
        (snd (caml_copy_double (b\<lparr>align_double := True\<rparr>) h d))
        (fst (caml_copy_double (b\<lparr>align_double := True\<rparr>) h d)) = d"
  by (simp add: Double_val_copy hp_tag_copy caml_Double_val_Store
      Double_val_copy [of "b\<lparr>align_double := True\<rparr>", unfolded Double_val_def, simplified])

section \<open>Boxes of the examples\<close>

lemmas box_defs = caml_copy_double_def Alloc_small_double_def Store_double_val_def
  caml_Store_double_val_def direct_store_def Double_val_def caml_Double_val_def direct_load_def
  Field_def set_Field_def union_v_def union_d_def empty_heap_def Let_def

lemma box_all_1: "Double_val b (box_all b empty_heap [x]) 1 = x"
  by (simp add: box_defs join_halves_split)

lemma box_all_2:
  "Double_val b (box_all b empty_heap [x, y]) 1 = x"
  "Double_val b (box_all b empty_heap [x, y]) 4 = y"
  by (simp_all add: box_defs join_halves_split)

lemma box_all_3:
  "Double_val b (box_all b empty_heap [x, y, z]) 1 = x"
  "Double_val b (box_all b empty_heap [x, y, z]) 4 = y"
  "Double_val b (box_all b empty_heap [x, y, z]) 7 = z"
  by (simp_all add: box_defs join_halves_split)

lemma box_all_4:
  "Double_val b (box_all b empty_heap [x, y, z, w]) 1 = x"
  "Double_val b (box_all b empty_heap [x, y, z, w]) 4 = y"
  "Double_val b (box_all b empty_heap [x, y, z, w]) 7 = z"
  "Double_val b (box_all b empty_heap [x, y, z, w]) 10 = w"
  by (simp_all add: box_defs join_halves_split)

text \<open>
  The patterns of the examples: \<open>0x3FF0000000000000\<close> is 1.0, \<open>0x4000000000000000\<close> is
  2.0, \<open>0x4010000000000000\<close> is 4.0, \<open>0x8000000000000000\<close> is -0.0,
  \<open>0x7FF0000000000000\<close> and \<open>0xFFF0000000000000\<close> are the infinities,
  \<open>0x7FF8000000000000\<close> is a NaN and \<open>0x0000000000000001\<close> the least subnormal.
\<close>

lemma isnan_examples:
  "isnan 0x7FF8000000000000"
  "\<not> isnan 0"
  "\<not> isnan 0x8000000000000000"
  "\<not> isnan 0x3FF0000000000000"
  "\<not> isnan 0x4000000000000000"
  "\<not> isnan 0x4010000000000000"
  "\<not> isnan 0x7FF0000000000000"
  "\<not> isnan 0xFFF0000000000000"
  by (simp_all add: isnan_def exponent_field_def mantissa_field_def)

lemma isfinite_examples:
  "\<not> isfinite 0x7FF8000000000000"
  "\<not> isfinite 0x7FF0000000000000"
  "\<not> isfinite 0xFFF0000000000000"
  "isfinite 0x3FF0000000000000"
  by (simp_all add: isfinite_def exponent_field_def)

lemma order_key_examples:
  "order_key 0 = 0"
  "order_key 0x8000000000000000 = 0"
  "order_key 0x3FF0000000000000 = 4607182418800017408"
  "order_key 0x4000000000000000 = 4611686018427387904"
  "order_key 0x4010000000000000 = 4616189618054758400"
  "order_key 0x7FF0000000000000 = 9218868437227405312"
  "order_key 0xFFF0000000000000 = - 9218868437227405312"
  by (simp_all add: order_key_def sign_bit_def)

section \<open>Comparisons\<close>

lemma float_compare_le0:
  "caml_float_compare b h vf vg \<le> 0 \<longleftrightarrow>
     isnan (Double_val b h vf) \<or> isnan (Double_val b h vg)
     \<or> order_key (Double_val b h vf) \<le> order_key (Double_val b h vg)"
  by (auto simp: caml_float_compare_def Let_def fp_eq_def fp_lt_def fp_gt_def)

lemma float_compare_antisym:
  "caml_float_compare b h vf vg = - caml_float_compare b h vg vf"
  by (auto simp: caml_float_compare_def Let_def fp_eq_def fp_lt_def fp_gt_def)

lemma float_compare_nan:
  "isnan (Double_val b h vf) \<or> isnan (Double_val b h vg) \<Longrightarrow> caml_float_compare b h vf vg = 0"
  by (auto simp: caml_float_compare_def Let_def fp_eq_def fp_lt_def fp_gt_def)

lemma float_compare_trans:
  assumes "\<not> isnan (Double_val b h vg)"
    and "caml_float_compare b h vf vg \<le> 0" and "caml_float_compare b h vg vh \<le> 0"
  shows "caml_float_compare b h vf vh \<le> 0"
  using assms unfolding float_compare_le0 by auto

text \<open>
  C2, as the claim states it, fails: with 2.0, a NaN and 1.0 boxed at 1, 4 and 7, the
  comparison puts 2.0 before the NaN and the NaN before 1.0 (both results are 0), but
  2.0 after 1.0.
\<close>

theorem float_compare_not_transitive:
  "caml_float_compare hosted
     (box_all hosted empty_heap [0x4000000000000000, 0x7FF8000000000000, 0x3FF0000000000000]) 1 4 \<le> 0
   \<and> caml_float_compare hosted
     (box_all hosted empty_heap [0x4000000000000000, 0x7FF8000000000000, 0x3FF0000000000000]) 4 7 \<le> 0
   \<and> \<not> caml_float_compare hosted
     (box_all hosted empty_heap [0x4000000000000000, 0x7FF8000000000000, 0x3FF0000000000000]) 1 7 \<le> 0"
  by (simp add: float_compare_le0 box_all_3 isnan_examples order_key_examples
      del: box_all.simps One_nat_def)

text \<open>
  C2, amended. For all boxed operands, \<open>compare\<close> is antisymmetric; it returns 0
  whenever an operand is NaN; and it is transitive through every middle operand that is
  not NaN: if \<open>g\<close> is not NaN, \<open>compare(f, g) \<le> 0\<close> and \<open>compare(g, h) \<le> 0\<close>, then
  \<open>compare(f, h) \<le> 0\<close>.
\<close>

theorem float_compare_order:
  "caml_float_compare b h vf vg = - caml_float_compare b h vg vf
   \<and> (isnan (Double_val b h vf) \<or> isnan (Double_val b h vg)
        \<longrightarrow> caml_float_compare b h vf vg = 0)
   \<and> (\<not> isnan (Double_val b h vg)
        \<and> caml_float_compare b h vf vg \<le> 0 \<and> caml_float_compare b h vg vh \<le> 0
        \<longrightarrow> caml_float_compare b h vf vh \<le> 0)"
  using float_compare_antisym [of b h vf vg] float_compare_nan [of b h vf vg]
    float_compare_trans [of b h vg vf vh]
  by blast

theorem float_compare_order_witness:
  "caml_float_compare hosted
     (box_all hosted empty_heap [0x3FF0000000000000, 0x4000000000000000, 0x4010000000000000,
        0x7FF8000000000000]) 1 7 \<le> 0
   \<and> caml_float_compare hosted
     (box_all hosted empty_heap [0x3FF0000000000000, 0x4000000000000000, 0x4010000000000000,
        0x7FF8000000000000]) 10 4 = 0"
proof -
  let ?h = "box_all hosted empty_heap [0x3FF0000000000000, 0x4000000000000000,
     0x4010000000000000, 0x7FF8000000000000]"
  have g: "\<not> isnan (Double_val hosted ?h 4)"
    by (simp add: box_all_4 isnan_examples del: box_all.simps)
  have fg: "caml_float_compare hosted ?h 1 4 \<le> 0"
    by (simp add: float_compare_le0 box_all_4 isnan_examples order_key_examples
        del: box_all.simps One_nat_def)
  have gh: "caml_float_compare hosted ?h 4 7 \<le> 0"
    by (simp add: float_compare_le0 box_all_4 isnan_examples order_key_examples
        del: box_all.simps)
  have n: "isnan (Double_val hosted ?h 10) \<or> isnan (Double_val hosted ?h 4)"
    by (simp add: box_all_4 isnan_examples del: box_all.simps)
  from float_compare_order [of hosted ?h 1 4 7] g fg gh
  have "caml_float_compare hosted ?h 1 7 \<le> 0" by blast
  moreover from float_compare_order [of hosted ?h 10 4 7] n
  have "caml_float_compare hosted ?h 10 4 = 0" by blast
  ultimately show ?thesis by blast
qed

text \<open>
  C3. For all boxed operands holding \<open>f\<close> and \<open>g\<close>: \<open>compare\<close> returns -1 when
  \<open>f < g\<close>, 0 when \<open>f == g\<close>, 1 when \<open>f > g\<close>, and 0 when either or both are NaN, also with
  one NaN and one number; a NaN is sorted to neither end.
\<close>

theorem float_compare_cases:
  "(fp_lt (Double_val b h vf) (Double_val b h vg) \<longrightarrow> caml_float_compare b h vf vg = - 1)
   \<and> (fp_eq (Double_val b h vf) (Double_val b h vg) \<longrightarrow> caml_float_compare b h vf vg = 0)
   \<and> (fp_gt (Double_val b h vf) (Double_val b h vg) \<longrightarrow> caml_float_compare b h vf vg = 1)
   \<and> (isnan (Double_val b h vf) \<or> isnan (Double_val b h vg)
        \<longrightarrow> caml_float_compare b h vf vg = 0)"
  by (auto simp: caml_float_compare_def Let_def fp_eq_def fp_lt_def fp_gt_def)

theorem float_compare_cases_witness:
  "caml_float_compare hosted
     (box_all hosted empty_heap [0x3FF0000000000000, 0x4000000000000000, 0x7FF8000000000000]) 1 4 = - 1
   \<and> caml_float_compare hosted
     (box_all hosted empty_heap [0x3FF0000000000000, 0x4000000000000000, 0x7FF8000000000000]) 4 4 = 0
   \<and> caml_float_compare hosted
     (box_all hosted empty_heap [0x3FF0000000000000, 0x4000000000000000, 0x7FF8000000000000]) 4 1 = 1
   \<and> caml_float_compare hosted
     (box_all hosted empty_heap [0x3FF0000000000000, 0x4000000000000000, 0x7FF8000000000000]) 7 1 = 0
   \<and> caml_float_compare hosted
     (box_all hosted empty_heap [0x3FF0000000000000, 0x4000000000000000, 0x7FF8000000000000]) 4 7 = 0
   \<and> caml_float_compare hosted
     (box_all hosted empty_heap [0x3FF0000000000000, 0x4000000000000000, 0x7FF8000000000000]) 7 7 = 0"
proof -
  let ?h = "box_all hosted empty_heap [0x3FF0000000000000, 0x4000000000000000,
     0x7FF8000000000000]"
  have lt: "fp_lt (Double_val hosted ?h 1) (Double_val hosted ?h 4)"
    by (simp add: fp_lt_def box_all_3 isnan_examples order_key_examples
        del: box_all.simps One_nat_def)
  have eq: "fp_eq (Double_val hosted ?h 4) (Double_val hosted ?h 4)"
    by (simp add: fp_eq_def box_all_3 isnan_examples del: box_all.simps)
  have gt: "fp_gt (Double_val hosted ?h 4) (Double_val hosted ?h 1)"
    by (simp add: fp_gt_def fp_lt_def box_all_3 isnan_examples order_key_examples
        del: box_all.simps One_nat_def)
  have n: "isnan (Double_val hosted ?h 7)"
    by (simp add: box_all_3 isnan_examples del: box_all.simps)
  from float_compare_cases [of hosted ?h 1 4] lt
  have 1: "caml_float_compare hosted ?h 1 4 = - 1" by blast
  from float_compare_cases [of hosted ?h 4 4] eq
  have 2: "caml_float_compare hosted ?h 4 4 = 0" by blast
  from float_compare_cases [of hosted ?h 4 1] gt
  have 3: "caml_float_compare hosted ?h 4 1 = 1" by blast
  from float_compare_cases [of hosted ?h 7 1] n
  have 4: "caml_float_compare hosted ?h 7 1 = 0" by blast
  from float_compare_cases [of hosted ?h 4 7] n
  have 5: "caml_float_compare hosted ?h 4 7 = 0" by blast
  from float_compare_cases [of hosted ?h 7 7] n
  have 6: "caml_float_compare hosted ?h 7 7 = 0" by blast
  from 1 2 3 4 5 6 show ?thesis by blast
qed

text \<open>
  The relational predicates. Outside the kernel each of the six is its native operator
  on the unboxed operands, and so are five of them in the kernel.
\<close>

lemma relational_hosted:
  assumes "\<not> kernel b"
  shows "caml_eq_float b h f g = fp_eq (Double_val b h f) (Double_val b h g)"
    and "caml_neq_float b h f g = fp_ne (Double_val b h f) (Double_val b h g)"
    and "caml_le_float b h f g = fp_le (Double_val b h f) (Double_val b h g)"
    and "caml_lt_float b h f g = fp_lt (Double_val b h f) (Double_val b h g)"
    and "caml_ge_float b h f g = fp_ge (Double_val b h f) (Double_val b h g)"
    and "caml_gt_float b h f g = fp_gt (Double_val b h f) (Double_val b h g)"
  using assms
  by (simp_all add: caml_eq_float_def caml_neq_float_def caml_le_float_def caml_lt_float_def
      caml_ge_float_def caml_gt_float_def)

lemma relational_kernel:
  "caml_eq_float b h f g = fp_eq (Double_val b h f) (Double_val b h g)"
  "caml_neq_float b h f g = fp_ne (Double_val b h f) (Double_val b h g)"
  "caml_le_float b h f g = fp_le (Double_val b h f) (Double_val b h g)"
  "caml_ge_float b h f g = fp_ge (Double_val b h f) (Double_val b h g)"
  "caml_gt_float b h f g = fp_gt (Double_val b h f) (Double_val b h g)"
  by (simp_all add: caml_eq_float_def caml_neq_float_def caml_le_float_def
      caml_ge_float_def caml_gt_float_def)

lemma relational_nan:
  assumes "isnan f \<or> isnan g"
  shows "\<not> fp_eq f g" and "fp_ne f g" and "\<not> fp_le f g" and "\<not> fp_lt f g"
    and "\<not> fp_ge f g" and "\<not> fp_gt f g"
  using assms by (auto simp: fp_eq_def fp_ne_def fp_le_def fp_lt_def fp_ge_def fp_gt_def)

lemma lt_float_kernel_is_le:
  "kernel b \<Longrightarrow> caml_lt_float b h f g = caml_le_float b h f g"
  by (simp add: caml_lt_float_def caml_le_float_def)

text \<open>
  C4 does not hold of the kernel back-end: there \<open>caml_lt_float\<close> applies \<^verbatim>\<open><=\<close>. With
  1.0 boxed at 1 and at 4, \<open>lt\<close> answers true, though 1.0 is not less than 1.0, and
  outside the kernel \<open>lt\<close> answers false on the same operands.
\<close>

theorem lt_float_kernel_reflexive:
  "caml_lt_float in_kernel
     (box_all in_kernel empty_heap [0x3FF0000000000000, 0x3FF0000000000000]) 1 4
   \<and> \<not> fp_lt 0x3FF0000000000000 0x3FF0000000000000
   \<and> \<not> caml_lt_float hosted
     (box_all hosted empty_heap [0x3FF0000000000000, 0x3FF0000000000000]) 1 4"
proof -
  have k: "kernel in_kernel" and nk: "\<not> kernel hosted"
    by (simp_all add: in_kernel_def hosted_def)
  show ?thesis
    by (simp add: caml_lt_float_def k nk box_all_2 fp_le_def fp_lt_def isnan_examples
        del: box_all.simps One_nat_def)
qed

section \<open>Classification\<close>

lemma exponent_field_word: "exponent_field d = unat (take_bit 11 (drop_bit 52 d))"
  by (simp add: exponent_field_def unat_drop_bit_eq unsigned_take_bit_eq)
     (simp add: take_bit_eq_mod drop_bit_eq_div)

lemma mantissa_field_word: "mantissa_field d = unat (take_bit 52 d)"
  by (simp add: mantissa_field_def unsigned_take_bit_eq) (simp add: take_bit_eq_mod)

lemma bit_exponent_mask: "bit (0x7FF00000 :: int) n \<longleftrightarrow> 20 \<le> n \<and> n < 31"
proof -
  have eq: "(0x7FF00000 :: int) = push_bit 20 (mask 11)" by (simp add: mask_eq_exp_minus_1)
  show ?thesis unfolding eq by (auto simp: bit_simps)
qed

lemma bit_mantissa_mask: "bit (0xFFFFF :: int) n \<longleftrightarrow> n < 20"
proof -
  have eq: "(0xFFFFF :: int) = mask 20" by (simp add: mask_eq_exp_minus_1)
  show ?thesis unfolding eq by (auto simp: bit_simps)
qed

lemma high_exponent_bits:
  "high_half d AND 0x7FF00000 = push_bit 20 (ucast (take_bit 11 (drop_bit 52 d)))"
  by (rule bit_word_eqI) (auto simp: high_half_def bit_simps bit_exponent_mask ac_simps)

lemma exponent_bits_high:
  "take_bit 11 (drop_bit 52 d) = ucast (drop_bit 20 (high_half d AND 0x7FF00000))"
  by (rule bit_word_eqI) (auto simp: high_half_def bit_simps bit_exponent_mask ac_simps)

lemma exponent_zero_iff: "high_half d AND 0x7FF00000 = 0 \<longleftrightarrow> exponent_field d = 0"
proof
  assume "high_half d AND 0x7FF00000 = 0"
  with exponent_bits_high [of d] show "exponent_field d = 0"
    by (simp add: exponent_field_word)
next
  assume "exponent_field d = 0"
  then have "take_bit 11 (drop_bit 52 d) = 0"
    by (simp add: exponent_field_word unat_eq_0)
  with high_exponent_bits [of d] show "high_half d AND 0x7FF00000 = 0" by simp
qed

lemma exponent_ones_iff:
  "high_half d AND 0x7FF00000 = 0x7FF00000 \<longleftrightarrow> exponent_field d = 2047"
proof
  assume "high_half d AND 0x7FF00000 = 0x7FF00000"
  with exponent_bits_high [of d] have "take_bit 11 (drop_bit 52 d) = 2047" by simp
  then show "exponent_field d = 2047" by (simp add: exponent_field_word)
next
  assume "exponent_field d = 2047"
  then have "unat (take_bit 11 (drop_bit 52 d)) = unat (2047 :: 64 word)"
    by (simp add: exponent_field_word)
  then have "take_bit 11 (drop_bit 52 d) = 2047" by (simp only: word_unat_eq_iff)
  with high_exponent_bits [of d] show "high_half d AND 0x7FF00000 = 0x7FF00000" by simp
qed

lemma mantissa_of_halves:
  "take_bit 52 d = push_bit 32 (ucast (high_half d AND 0xFFFFF)) OR ucast (low_half d)"
  by (rule bit_word_eqI)
    (auto simp: high_half_def low_half_def bit_simps bit_mantissa_mask ac_simps)

lemma halves_of_mantissa:
  "low_half d OR (high_half d AND 0xFFFFF)
     = ucast (take_bit 52 d) OR ucast (drop_bit 32 (take_bit 52 d))"
  by (rule bit_word_eqI)
    (auto simp: high_half_def low_half_def bit_simps bit_mantissa_mask ac_simps)

lemma mantissa_zero_iff:
  "low_half d OR (high_half d AND 0xFFFFF) = 0 \<longleftrightarrow> mantissa_field d = 0"
proof
  assume "low_half d OR (high_half d AND 0xFFFFF) = 0"
  then have "low_half d = 0" and "high_half d AND 0xFFFFF = 0"
    by (simp_all add: or_eq_0_iff)
  with mantissa_of_halves [of d] show "mantissa_field d = 0"
    by (simp add: mantissa_field_word)
next
  assume "mantissa_field d = 0"
  then have "take_bit 52 d = 0" by (simp add: mantissa_field_word unat_eq_0)
  with halves_of_mantissa [of d] show "low_half d OR (high_half d AND 0xFFFFF) = 0" by simp
qed

lemma two_int32_halves: "two_int32_h b d = high_half d" "two_int32_l b d = low_half d"
  by (simp_all add: two_int32_h_def two_int32_l_def union_v_def)


lemma classify_bits:
  assumes "\<not> host_fpclassify b" and "\<not> kernel b"
  shows "caml_classify_float b h vd = ieee_class (Double_val b h vd)"
proof -
  let ?d = "Double_val b h vd"
  let ?h = "high_half ?d AND 0x7FF00000"
  let ?l = "low_half ?d OR (high_half ?d AND 0xFFFFF)"
  have c: "caml_classify_float b h vd =
      (if (?h OR ?l) = 0 then FP_zero
       else if ?h = 0 then FP_subnormal
       else if ?h = 0x7FF00000 then (if ?l = 0 then FP_infinite else FP_nan)
       else FP_normal)"
    using assms by (simp add: caml_classify_float_def Let_def two_int32_halves)
  have "(?h OR ?l) = 0 \<longleftrightarrow> ?h = 0 \<and> ?l = 0"
    by (rule or_eq_0_iff)
  then have z: "(?h OR ?l) = 0 \<longleftrightarrow> exponent_field ?d = 0 \<and> mantissa_field ?d = 0"
    by (simp only: exponent_zero_iff mantissa_zero_iff)
  show ?thesis
    unfolding c z exponent_zero_iff exponent_ones_iff mantissa_zero_iff ieee_class_def
    by simp
qed

lemma classify_host:
  assumes "host_fpclassify b"
  shows "caml_classify_float b h vd = ieee_class (Double_val b h vd)"
  using assms
  by (cases "ieee_class (Double_val b h vd)") (simp_all add: caml_classify_float_def fpclassify_def)

lemma classify_kernel:
  assumes "\<not> host_fpclassify b" and "kernel b"
  shows "caml_classify_float b h vd = (if fp_eq (Double_val b h vd) 0 then FP_zero else FP_normal)"
  using assms by (simp add: caml_classify_float_def Let_def)

lemma ieee_class_examples:
  "ieee_class 0 = FP_zero"
  "ieee_class 0x8000000000000000 = FP_zero"
  "ieee_class 0x7FF0000000000000 = FP_infinite"
  "ieee_class 0xFFF0000000000000 = FP_infinite"
  "ieee_class 0x7FF8000000000000 = FP_nan"
  "ieee_class 0x3FF0000000000000 = FP_normal"
  "ieee_class 1 = FP_subnormal"
  by (simp_all add: ieee_class_def exponent_field_def mantissa_field_def)

text \<open>
  C5, as the claim states it, fails in the kernel back-end: the body compiled there tells
  zero from everything else only, so positive infinity, boxed at 1, is classified normal.
\<close>

theorem classify_kernel_infinity:
  "caml_classify_float in_kernel (box_all in_kernel empty_heap [0x7FF0000000000000]) 1 = FP_normal
   \<and> ieee_class 0x7FF0000000000000 = FP_infinite"
proof -
  have k: "kernel in_kernel" "\<not> host_fpclassify in_kernel" by (simp_all add: in_kernel_def)
  show ?thesis
    by (simp add: classify_kernel k box_all_1 fp_eq_def isnan_examples order_key_examples
        ieee_class_examples del: box_all.simps One_nat_def)
qed

text \<open>
  C5, amended. In a build that uses the host's \<open>fpclassify\<close> or the inspection of the two
  32-bit halves, \<open>classify(d)\<close> is, for every double \<open>d\<close>, the one code that the exponent
  and mantissa fields of the pattern of \<open>d\<close> determine (zero, subnormal, infinite, nan,
  otherwise normal); there 0.0 and -0.0 are zero, positive infinity is infinite and the NaN
  is nan. In the kernel back-end (without a host \<open>fpclassify\<close>) \<open>classify(d)\<close> is zero
  when \<open>d == 0\<close> and normal otherwise.
\<close>

theorem classify_float_classes:
  "(host_fpclassify b \<or> \<not> kernel b
      \<longrightarrow> caml_classify_float b h vd = ieee_class (Double_val b h vd)
          \<and> (Double_val b h vd = 0 \<longrightarrow> caml_classify_float b h vd = FP_zero)
          \<and> (Double_val b h vd = 0x8000000000000000 \<longrightarrow> caml_classify_float b h vd = FP_zero)
          \<and> (Double_val b h vd = 0x7FF0000000000000
                \<longrightarrow> caml_classify_float b h vd = FP_infinite)
          \<and> (Double_val b h vd = 0x7FF8000000000000 \<longrightarrow> caml_classify_float b h vd = FP_nan))
   \<and> (\<not> host_fpclassify b \<and> kernel b
      \<longrightarrow> caml_classify_float b h vd
            = (if fp_eq (Double_val b h vd) 0 then FP_zero else FP_normal))"
proof -
  have "caml_classify_float b h vd = ieee_class (Double_val b h vd)"
    if "host_fpclassify b \<or> \<not> kernel b"
    using that classify_bits [of b h vd] classify_host [of b h vd] by blast
  then show ?thesis
    using classify_kernel [of b h vd] by (auto simp: ieee_class_examples)
qed

theorem classify_float_classes_witness:
  "caml_classify_float hosted
     (box_all hosted empty_heap [0, 0x8000000000000000, 0x7FF0000000000000, 0x7FF8000000000000])
     1 = FP_zero
   \<and> caml_classify_float hosted
     (box_all hosted empty_heap [0, 0x8000000000000000, 0x7FF0000000000000, 0x7FF8000000000000])
     4 = FP_zero
   \<and> caml_classify_float hosted
     (box_all hosted empty_heap [0, 0x8000000000000000, 0x7FF0000000000000, 0x7FF8000000000000])
     7 = FP_infinite
   \<and> caml_classify_float hosted
     (box_all hosted empty_heap [0, 0x8000000000000000, 0x7FF0000000000000, 0x7FF8000000000000])
     10 = FP_nan
   \<and> caml_classify_float in_kernel
     (box_all in_kernel empty_heap [0x8000000000000000, 0x3FF0000000000000]) 1 = FP_zero
   \<and> caml_classify_float in_kernel
     (box_all in_kernel empty_heap [0x8000000000000000, 0x3FF0000000000000]) 4 = FP_normal"
proof -
  let ?h = "box_all hosted empty_heap
     [0, 0x8000000000000000, 0x7FF0000000000000, 0x7FF8000000000000]"
  let ?k = "box_all in_kernel empty_heap [0x8000000000000000, 0x3FF0000000000000]"
  have b: "host_fpclassify hosted \<or> \<not> kernel hosted" by (simp add: hosted_def)
  have k: "\<not> host_fpclassify in_kernel \<and> kernel in_kernel" by (simp add: in_kernel_def)
  have v: "Double_val hosted ?h 1 = 0" "Double_val hosted ?h 4 = 0x8000000000000000"
    "Double_val hosted ?h 7 = 0x7FF0000000000000" "Double_val hosted ?h 10 = 0x7FF8000000000000"
    by (simp_all only: box_all_4)
  have z: "fp_eq (Double_val in_kernel ?k 1) 0" "\<not> fp_eq (Double_val in_kernel ?k 4) 0"
    by (simp_all add: box_all_2 fp_eq_def isnan_examples order_key_examples
        del: box_all.simps One_nat_def)
  from classify_float_classes [of hosted ?h 1] b v(1)
  have 1: "caml_classify_float hosted ?h 1 = FP_zero" by blast
  from classify_float_classes [of hosted ?h 4] b v(2)
  have 2: "caml_classify_float hosted ?h 4 = FP_zero" by blast
  from classify_float_classes [of hosted ?h 7] b v(3)
  have 3: "caml_classify_float hosted ?h 7 = FP_infinite" by blast
  from classify_float_classes [of hosted ?h 10] b v(4)
  have 4: "caml_classify_float hosted ?h 10 = FP_nan" by blast
  from classify_float_classes [of in_kernel ?k 1] k z(1)
  have 5: "caml_classify_float in_kernel ?k 1 = FP_zero" by simp
  from classify_float_classes [of in_kernel ?k 4] k z(2)
  have 6: "caml_classify_float in_kernel ?k 4 = FP_normal" by simp
  from 1 2 3 4 5 6 show ?thesis by blast
qed

section \<open>Formatting\<close>

text \<open>
  C8. In a build with \<^verbatim>\<open>HAS_BROKEN_PRINTF\<close>, for every format, every native library and
  every boxed operand: \<open>format_float\<close> returns the text \<open>nan\<close> when the operand is NaN,
  \<open>inf\<close> when it is positive infinity and \<open>-inf\<close> when it is negative infinity, whatever
  the native formatter would write.
\<close>

theorem format_float_nonfinite:
  assumes "broken_printf b"
  shows "(isnan (Double_val b h arg) \<longrightarrow> caml_format_float b nv h fmt arg = ''nan'')
    \<and> (Double_val b h arg = 0x7FF0000000000000 \<longrightarrow> caml_format_float b nv h fmt arg = ''inf'')
    \<and> (Double_val b h arg = 0xFFF0000000000000 \<longrightarrow> caml_format_float b nv h fmt arg = ''-inf'')"
proof -
  have nan: "\<not> isfinite d" if "isnan d" for d
    using that by (simp add: isnan_def isfinite_def)
  have pos: "fp_gt 0x7FF0000000000000 0"
    by (simp add: fp_gt_def fp_lt_def isnan_examples order_key_examples)
  have neg: "\<not> fp_gt 0xFFF0000000000000 0"
    by (simp add: fp_gt_def fp_lt_def isnan_examples order_key_examples)
  show ?thesis
    using assms nan [of "Double_val b h arg"]
    by (auto simp: caml_format_float_def Let_def isfinite_examples isnan_examples pos neg)
qed

theorem format_float_nonfinite_witness:
  "caml_format_float (hosted\<lparr>broken_printf := True\<rparr>) libc
     (box_all (hosted\<lparr>broken_printf := True\<rparr>) empty_heap
        [0x7FF8000000000000, 0x7FF0000000000000, 0xFFF0000000000000]) ''%.12g'' 1 = ''nan''
   \<and> caml_format_float (hosted\<lparr>broken_printf := True\<rparr>) libc
     (box_all (hosted\<lparr>broken_printf := True\<rparr>) empty_heap
        [0x7FF8000000000000, 0x7FF0000000000000, 0xFFF0000000000000]) ''%.12g'' 4 = ''inf''
   \<and> caml_format_float (hosted\<lparr>broken_printf := True\<rparr>) libc
     (box_all (hosted\<lparr>broken_printf := True\<rparr>) empty_heap
        [0x7FF8000000000000, 0x7FF0000000000000, 0xFFF0000000000000]) ''%.12g'' 7 = ''-inf''"
proof -
  let ?b = "hosted\<lparr>broken_printf := True\<rparr>"
  let ?h = "box_all ?b empty_heap [0x7FF8000000000000, 0x7FF0000000000000, 0xFFF0000000000000]"
  have b: "broken_printf ?b" by simp
  have v: "isnan (Double_val ?b ?h 1)" "Double_val ?b ?h 4 = 0x7FF0000000000000"
    "Double_val ?b ?h 7 = 0xFFF0000000000000"
    by (simp_all add: box_all_3 isnan_examples del: box_all.simps One_nat_def)
  from format_float_nonfinite [OF b, of ?h 1 libc "''%.12g''"] v(1)
  have 1: "caml_format_float ?b libc ?h ''%.12g'' 1 = ''nan''" by blast
  from format_float_nonfinite [OF b, of ?h 4 libc "''%.12g''"] v(2)
  have 2: "caml_format_float ?b libc ?h ''%.12g'' 4 = ''inf''" by blast
  from format_float_nonfinite [OF b, of ?h 7 libc "''%.12g''"] v(3)
  have 3: "caml_format_float ?b libc ?h ''%.12g'' 7 = ''-inf''" by blast
  from 1 2 3 show ?thesis by blast
qed

section \<open>The copying loop\<close>

lemma copy_loop_filter:
  "i + len \<le> length vs \<Longrightarrow>
   copy_loop vs (int i) len dst
     = Inr (dst @ filter (\<lambda>c. c \<noteq> CHR ''_'') (take len (drop i vs)))"
proof (induction len arbitrary: i dst)
  case 0
  then show ?case by simp
next
  case (Suc len)
  then have i: "i < length vs" and rest: "Suc i + len \<le> length vs" by simp_all
  have split: "take (Suc len) (drop i vs) = vs ! i # take len (drop (Suc i) vs)"
    using i by (simp add: Cons_nth_drop_Suc [symmetric])
  have next_src: "int i + 1 = int (Suc i)" by simp
  show ?case
    using i Suc.IH [OF rest]
    by (simp only: copy_loop.simps split next_src Let_def) simp
qed

lemma copy_loop_whole:
  "copy_loop vs 0 (length vs) [] = Inr (filter (\<lambda>c. c \<noteq> CHR ''_'') vs)"
  using copy_loop_filter [of 0 "length vs" vs "[]"] by simp

lemma copy_loop_none: "copy_loop vs src 0 [] = Inr []"
  by simp

lemma float_of_string_buffer:
  "caml_float_of_string b nv h vs = parse_buffer b nv h (filter (\<lambda>c. c \<noteq> CHR ''_'') vs)"
  by (simp add: caml_float_of_string_def copy_loop_whole)

lemma parse_buffer_cases:
  "parse_buffer b nv h dst =
     (if dst = [] \<or> snd (native_parser b nv (c_string dst)) \<noteq> length dst
      then Inl (Failure ''float_of_string'')
      else Inr (caml_copy_double b h (fst (native_parser b nv (c_string dst)))))"
  by (simp add: parse_buffer_def Let_def split_beta)

section \<open>The slice of float_of_substring\<close>

lemma sint_nonneg_uint:
  fixes x :: "'a::len word"
  assumes "0 \<le> sint x"
  shows "sint x = uint x"
proof -
  from assms have nb: "\<not> bit x (LENGTH('a) - Suc 0)" by (simp add: bit_last_iff)
  have "signed_take_bit (LENGTH('a) - Suc 0) (uint x) = uint x"
  proof (rule bit_eqI)
    fix n
    show "bit (signed_take_bit (LENGTH('a) - Suc 0) (uint x)) n = bit (uint x) n"
    proof -
      have "n < LENGTH('a) - Suc 0 \<or> n = LENGTH('a) - Suc 0 \<or> LENGTH('a) \<le> n"
        by arith
      then show ?thesis
        using nb
        by (auto simp: bit_signed_take_bit_iff bit_uint_iff min_def dest: bit_imp_le_length)
    qed
  qed
  then show ?thesis by (simp add: sint_uint)
qed

lemma sint_nonneg_unat:
  fixes x :: "'a::len word"
  shows "0 \<le> sint x \<Longrightarrow> sint x = int (unat x)"
  by (simp add: sint_nonneg_uint)

lemma unat_of_length:
  "length vs < 2 ^ LENGTH('w) \<Longrightarrow> unat (of_nat (length vs) :: 'w::len word) = length vs"
  by (simp add: unat_of_nat)

lemma slice_len_valid:
  fixes idx l :: "'w::len word"
  assumes len: "length vs < 2 ^ LENGTH('w)"
    and "0 \<le> sint idx" and "sint idx < int (length vs)"
    and "0 < sint l" and "sint l \<le> int (length vs) - sint idx"
  shows "(0 \<le> sint idx \<and> idx < (of_nat (length vs) :: 'w word) \<and> 0 < sint l
          \<and> l \<le> of_nat (length vs) - idx)"
    and "unat idx + unat l \<le> length vs" and "sint idx = int (unat idx)"
proof -
  have n: "unat (of_nat (length vs) :: 'w word) = length vs"
    using len by (rule unat_of_length)
  show 3: "sint idx = int (unat idx)" using \<open>0 \<le> sint idx\<close>
    by (rule sint_nonneg_unat)
  have l: "sint l = int (unat l)" using \<open>0 < sint l\<close>
    by (simp add: sint_nonneg_unat)
  have lt: "unat idx < length vs" using assms(3) 3 by linarith
  then have 1: "idx < (of_nat (length vs) :: 'w word)"
    by (simp add: word_less_nat_alt n)
  have sub: "unat ((of_nat (length vs) :: 'w word) - idx) = length vs - unat idx"
    using lt n by (simp add: unat_sub word_le_nat_alt)
  have ll: "unat l \<le> length vs - unat idx"
    using assms(5) 3 l lt by linarith
  then have 2: "l \<le> of_nat (length vs) - idx"
    by (simp add: word_le_nat_alt sub)
  show "(0 \<le> sint idx \<and> idx < (of_nat (length vs) :: 'w word) \<and> 0 < sint l
          \<and> l \<le> of_nat (length vs) - idx)"
    using assms 1 2 by simp
  show "unat idx + unat l \<le> length vs" using ll lt by simp
qed

lemma slice_len_invalid:
  fixes idx l :: "'w::len word"
  assumes len: "length vs < 2 ^ LENGTH('w)"
    and bad: "sint idx < 0 \<or> int (length vs) \<le> sint idx \<or> sint l \<le> 0
              \<or> int (length vs) - sint idx < sint l"
  shows "\<not> (0 \<le> sint idx \<and> idx < (of_nat (length vs) :: 'w word) \<and> 0 < sint l
          \<and> l \<le> of_nat (length vs) - idx)"
proof
  assume a: "0 \<le> sint idx \<and> idx < (of_nat (length vs) :: 'w word) \<and> 0 < sint l
          \<and> l \<le> of_nat (length vs) - idx"
  have n: "unat (of_nat (length vs) :: 'w word) = length vs"
    using len by (rule unat_of_length)
  have i: "sint idx = int (unat idx)" using a
    by (simp add: sint_nonneg_unat)
  have l: "sint l = int (unat l)" using a
    by (simp add: sint_nonneg_unat)
  have lt: "unat idx < length vs" using a by (simp add: word_less_nat_alt n)
  have sub: "unat ((of_nat (length vs) :: 'w word) - idx) = length vs - unat idx"
    using lt n by (simp add: unat_sub word_le_nat_alt)
  have ll: "unat l \<le> length vs - unat idx"
    using a by (simp add: word_le_nat_alt sub)
  from bad a i l lt ll show False
    by linarith
qed

lemma float_of_substring_invalid:
  fixes idx l :: "'w::len word"
  assumes "length vs < 2 ^ LENGTH('w)"
    and "sint idx < 0 \<or> int (length vs) \<le> sint idx \<or> sint l \<le> 0
              \<or> int (length vs) - sint idx < sint l"
  shows "caml_float_of_substring b nv h vs idx l = Inl (Failure ''float_of_string'')"
proof -
  have "\<not> (0 \<le> sint idx \<and> idx < (of_nat (length vs) :: 'w word) \<and> 0 < sint l
          \<and> l \<le> of_nat (length vs) - idx)"
    using assms by (rule slice_len_invalid)
  then have "caml_float_of_substring b nv h vs idx l
      = (case copy_loop vs (sint idx) 0 [] of Inl e \<Rightarrow> Inl e
         | Inr dst \<Rightarrow> parse_buffer b nv h dst)"
    unfolding caml_float_of_substring_def Let_def by (simp only: if_False unat_0)
  then show ?thesis by (simp add: parse_buffer_def)
qed

lemma float_of_substring_valid:
  fixes idx l :: "'w::len word"
  assumes "length vs < 2 ^ LENGTH('w)"
    and "0 \<le> sint idx" and "sint idx < int (length vs)"
    and "0 < sint l" and "sint l \<le> int (length vs) - sint idx"
  shows "caml_float_of_substring b nv h vs idx l
    = parse_buffer b nv h (filter (\<lambda>c. c \<noteq> CHR ''_'') (take (unat l) (drop (unat idx) vs)))"
  using slice_len_valid [OF assms] copy_loop_filter [of "unat idx" "unat l" vs "[]"]
  by (simp add: caml_float_of_substring_def Let_def)

section \<open>Characters\<close>

lemma isspace_iff:
  "isspace c \<longleftrightarrow> (of_char c :: nat) = 32 \<or> (9 :: nat) \<le> of_char c \<and> of_char c \<le> (13 :: nat)"
proof -
  have "c = CHR '' '' \<longleftrightarrow> (of_char c :: nat) = of_char (CHR '' '')"
    by (simp only: of_char_eq_iff)
  then show ?thesis by (simp add: isspace_def)
qed

lemma isspace_tolower: "isspace c \<Longrightarrow> tolower c = c"
  by (auto simp: isspace_iff tolower_def)

lemma isdigit_not_space: "isdigit c \<Longrightarrow> \<not> isspace c"
  by (auto simp: isspace_iff isdigit_def)

lemma isxdigit_not_space: "isxdigit c \<Longrightarrow> \<not> isspace c"
  by (auto simp: isspace_iff isxdigit_def isdigit_def)

lemma is_nchar_not_space: "is_nchar c \<Longrightarrow> \<not> isspace c"
proof
  assume n: "is_nchar c" and s: "isspace c"
  from s have "tolower c = c" by (rule isspace_tolower)
  with n s show False
    by (auto simp: is_nchar_def isspace_iff isdigit_def)
qed

lemma tolower_not_space: "tolower c = m \<Longrightarrow> \<not> isspace m \<Longrightarrow> \<not> isspace c"
  using isspace_tolower by auto

lemma space_not_separator: "isspace c \<Longrightarrow> c \<noteq> CHR ''_''"
  by (auto simp: isspace_iff)

lemma space_not_nul: "isspace c \<Longrightarrow> c \<noteq> CHR 0x00"
  by (auto simp: isspace_iff)

lemma letters_not_space:
  "\<not> isspace (CHR ''e'')" "\<not> isspace (CHR ''p'')" "\<not> isspace (CHR ''x'')"
  "\<not> isspace (CHR ''0'')" "\<not> isspace (CHR ''.'')" "\<not> isspace (CHR ''+'')"
  "\<not> isspace (CHR ''-'')" "\<not> isspace (CHR ''('')" "\<not> isspace (CHR '')'')"
  "\<forall>c \<in> set ''infinity''. \<not> isspace c" "\<forall>c \<in> set ''nan''. \<not> isspace c"
  by (simp_all add: isspace_iff)

section \<open>The parts of a number take no white space\<close>

lemma opt_sign_split:
  assumes "opt_sign s = (neg, r)"
  shows "\<exists>p. s = p @ r \<and> length p \<le> 1 \<and> (\<forall>c \<in> set p. \<not> isspace c)"
proof (cases s)
  case Nil
  with assms show ?thesis by (simp add: opt_sign_def)
next
  case (Cons c cs)
  show ?thesis
  proof (cases "c = CHR ''-'' \<or> c = CHR ''+''")
    case True
    with assms Cons have "s = [c] @ r" by (auto simp: opt_sign_def split: if_splits)
    moreover from True have "\<not> isspace c" by (auto simp: letters_not_space)
    ultimately show ?thesis by (intro exI [of _ "[c]"]) simp
  next
    case False
    with assms Cons have "s = [] @ r" by (simp add: opt_sign_def)
    then show ?thesis by (intro exI [of _ "[]"]) simp
  qed
qed

lemma mantissa_part_taken:
  assumes m: "mantissa_part isd s = Some (ip, fp, n)"
    and isd: "\<And>c. isd c \<Longrightarrow> \<not> isspace c"
  shows "0 < n \<and> n \<le> length s \<and> (\<forall>c \<in> set (take n s). \<not> isspace c)"
proof -
  let ?ip = "takeWhile isd s"
  have ip: "\<forall>c \<in> set ?ip. \<not> isspace c"
    using isd by (auto dest: set_takeWhileD)
  have s: "s = ?ip @ dropWhile isd s" by simp
  show ?thesis
  proof (cases "dropWhile isd s")
    case Nil
    with m have n: "n = length ?ip" and ne: "?ip \<noteq> []"
      by (auto simp: mantissa_part_def Let_def split: if_splits)
    from s Nil have "s = ?ip" by simp
    with n ne ip show ?thesis by (metis length_greater_0_conv order_refl take_all)
  next
    case (Cons c cs)
    show ?thesis
    proof (cases "c = CHR ''.''")
      case True
      let ?fp = "takeWhile isd cs"
      from m Cons True have n: "n = length ?ip + 1 + length ?fp"
        by (auto simp: mantissa_part_def Let_def split: if_splits)
      have fp: "\<forall>c \<in> set ?fp. \<not> isspace c"
        using isd by (auto dest: set_takeWhileD)
      have "s = ?ip @ CHR ''.'' # ?fp @ dropWhile isd cs"
        using s Cons True by simp
      then obtain rest where s': "s = ?ip @ CHR ''.'' # ?fp @ rest" ..
      have "take n s = take n (?ip @ CHR ''.'' # ?fp @ rest)"
        using s' by simp
      also have "\<dots> = ?ip @ CHR ''.'' # ?fp"
        by (simp add: n)
      finally have t: "take n s = ?ip @ CHR ''.'' # ?fp" .
      have "length s = length ?ip + 1 + length ?fp + length rest"
        by (subst s') simp
      with n have "n \<le> length s" by simp
      with n t ip fp show ?thesis by (auto simp: letters_not_space)
    next
      case False
      with m Cons have n: "n = length ?ip" and ne: "?ip \<noteq> []"
        by (auto simp: mantissa_part_def Let_def split: if_splits)
      have t: "take n s = ?ip" unfolding n by (rule takeWhile_eq_take [symmetric])
      have "n \<le> length s" unfolding n by (rule length_takeWhile_le)
      with n ne t ip show ?thesis by simp
    qed
  qed
qed

lemma exponent_part_taken:
  assumes e: "exponent_part m s = (e, k)" and m: "\<not> isspace m"
  shows "k \<le> length s \<and> (\<forall>c \<in> set (take k s). \<not> isspace c)"
proof (cases s)
  case Nil
  with e show ?thesis by (simp add: exponent_part_def)
next
  case (Cons c cs)
  obtain neg r where os: "opt_sign cs = (neg, r)" by (cases "opt_sign cs")
  from opt_sign_split [OF os] obtain p where
    cs: "cs = p @ r" and p: "\<forall>c \<in> set p. \<not> isspace c" by blast
  let ?ds = "takeWhile isdigit r"
  show ?thesis
  proof (cases "tolower c = m \<and> ?ds \<noteq> []")
    case False
    with e Cons os have "k = 0" by (auto simp: exponent_part_def Let_def split: if_splits)
    then show ?thesis by simp
  next
    case True
    with e Cons os have k: "k = 1 + (length cs - length r) + length ?ds"
      by (auto simp: exponent_part_def Let_def split: if_splits)
    have k': "k = Suc (length p + length ?ds)" using k cs by simp
    have c: "\<not> isspace c" using tolower_not_space [of c m] True m by blast
    have ds: "\<forall>c \<in> set ?ds. \<not> isspace c"
      by (auto dest: set_takeWhileD isdigit_not_space)
    have "r = ?ds @ dropWhile isdigit r" by simp
    then obtain rest where r: "r = ?ds @ rest" ..
    have s: "s = c # p @ ?ds @ rest" using Cons cs r by simp
    have "take k s = take k (c # p @ ?ds @ rest)" using s by simp
    also have "\<dots> = c # p @ ?ds" by (simp add: k')
    finally have t: "take k s = c # p @ ?ds" .
    have "length s = Suc (length p + length ?ds + length rest)" by (subst s) simp
    with k' have "k \<le> length s" by simp
    with t c p ds show ?thesis by auto
  qed
qed

lemma take_add_no_space:
  assumes "n \<le> length s" and "\<forall>c \<in> set (take n s). \<not> isspace c"
    and "k \<le> length (drop n s)" and "\<forall>c \<in> set (take k (drop n s)). \<not> isspace c"
  shows "n + k \<le> length s \<and> (\<forall>c \<in> set (take (n + k) s). \<not> isspace c)"
  using assms by (auto simp: take_add)

lemma decimal_number_taken:
  assumes "decimal_number neg s = Some (d, n)"
  shows "0 < n \<and> n \<le> length s \<and> (\<forall>c \<in> set (take n s). \<not> isspace c)"
proof -
  from assms obtain ip fp n0 e k where
    m: "mantissa_part isdigit s = Some (ip, fp, n0)"
    and e: "exponent_part (CHR ''e'') (drop n0 s) = (e, k)" and n: "n = n0 + k"
    by (auto simp: decimal_number_def Let_def split: option.splits prod.splits)
  from mantissa_part_taken [OF m isdigit_not_space]
  have 1: "0 < n0" "n0 \<le> length s" "\<forall>c \<in> set (take n0 s). \<not> isspace c" by simp_all
  from exponent_part_taken [OF e letters_not_space(1)]
  have 2: "k \<le> length (drop n0 s)" "\<forall>c \<in> set (take k (drop n0 s)). \<not> isspace c"
    by simp_all
  from take_add_no_space [OF 1(2,3) 2] 1(1) n show ?thesis by simp
qed

lemma hex_number_taken:
  assumes "hex_number neg s = Some (d, n)"
  shows "0 < n \<and> n \<le> length s \<and> (\<forall>c \<in> set (take n s). \<not> isspace c)"
proof -
  from assms obtain c0 cx r where s: "s = c0 # cx # r"
    by (cases s; cases "tl s") (auto simp: hex_number_def)
  with assms have pre: "c0 = CHR ''0''" "tolower cx = CHR ''x''"
    by (auto simp: hex_number_def split: if_splits)
  with assms s obtain ip fp n0 e k where
    m: "mantissa_part isxdigit r = Some (ip, fp, n0)"
    and e: "exponent_part (CHR ''p'') (drop n0 r) = (e, k)" and n: "n = 2 + n0 + k"
    by (auto simp: hex_number_def Let_def split: option.splits prod.splits)
  from mantissa_part_taken [OF m isxdigit_not_space]
  have 1: "0 < n0" "n0 \<le> length r" "\<forall>c \<in> set (take n0 r). \<not> isspace c" by simp_all
  from exponent_part_taken [OF e letters_not_space(2)]
  have 2: "k \<le> length (drop n0 r)" "\<forall>c \<in> set (take k (drop n0 r)). \<not> isspace c"
    by simp_all
  from take_add_no_space [OF 1(2,3) 2]
  have 3: "n0 + k \<le> length r" "\<forall>c \<in> set (take (n0 + k) r). \<not> isspace c" by simp_all
  have n': "n = Suc (Suc (n0 + k))" using n by simp
  have cx: "\<not> isspace cx" using pre(2) letters_not_space(3) by (rule tolower_not_space)
  show ?thesis
    using 3 cx pre(1) by (simp add: s n' letters_not_space)
qed

lemma map_tolower_no_space:
  assumes "map tolower xs = ys" and "\<forall>c \<in> set ys. \<not> isspace c"
  shows "\<forall>c \<in> set xs. \<not> isspace c"
proof
  fix c assume c: "c \<in> set xs"
  then have "tolower c \<in> set ys" using assms(1) by auto
  with assms(2) have "\<not> isspace (tolower c)" by simp
  then show "\<not> isspace c" using isspace_tolower [of c] by auto
qed

lemma take_full_length:
  assumes "map f (take n s) = ys" and "length ys = n"
  shows "n \<le> length s"
proof -
  from assms have "length (take n s) = n" by (metis length_map)
  then show ?thesis by simp
qed

lemma nan_tail_taken:
  "nan_tail s \<le> length s \<and> (\<forall>c \<in> set (take (nan_tail s) s). \<not> isspace c)"
proof (cases s)
  case Nil
  then show ?thesis by (simp add: nan_tail_def)
next
  case (Cons c cs)
  let ?w = "takeWhile is_nchar cs"
  show ?thesis
  proof (cases "c = CHR ''('' \<and> (\<exists>rest. dropWhile is_nchar cs = CHR '')'' # rest)")
    case False
    then have "nan_tail s = 0"
      by (auto simp: nan_tail_def Cons split: list.splits)
    then show ?thesis by simp
  next
    case True
    then obtain rest where c: "c = CHR ''(''" and d: "dropWhile is_nchar cs = CHR '')'' # rest"
      by blast
    have t: "nan_tail s = Suc (Suc (length ?w))"
      by (simp add: nan_tail_def Cons c d)
    have "cs = ?w @ dropWhile is_nchar cs" by simp
    then have cs: "cs = ?w @ CHR '')'' # rest" using d by simp
    have s: "s = CHR ''('' # ?w @ CHR '')'' # rest" using Cons c cs by simp
    have w: "\<forall>c \<in> set ?w. \<not> isspace c"
      by (auto dest: set_takeWhileD is_nchar_not_space)
    have "take (nan_tail s) s = take (Suc (Suc (length ?w))) (CHR ''('' # ?w @ CHR '')'' # rest)"
      using s t by simp
    also have "\<dots> = CHR ''('' # ?w @ [CHR '')'']" by simp
    finally have tk: "take (nan_tail s) s = CHR ''('' # ?w @ [CHR '')'']" .
    have "length s = Suc (Suc (length ?w + length rest))" by (subst s) simp
    with t have "nan_tail s \<le> length s" by simp
    with tk w show ?thesis by (simp add: letters_not_space)
  qed
qed

lemma inf_nan_taken:
  assumes "inf_nan neg s = Some (d, n)"
  shows "0 < n \<and> n \<le> length s \<and> (\<forall>c \<in> set (take n s). \<not> isspace c)"
proof -
  consider (infinity) "map tolower (take 8 s) = ''infinity''" "n = 8"
    | (inf) "map tolower (take 3 s) = ''inf''" "n = 3"
    | (nan) "map tolower (take 3 s) = ''nan''" "n = 3 + nan_tail (drop 3 s)"
    using assms by (auto simp: inf_nan_def split: if_splits)
  then show ?thesis
  proof cases
    case infinity
    from take_full_length [OF infinity(1)] have "8 \<le> length s" by simp
    moreover from map_tolower_no_space [OF infinity(1)]
    have "\<forall>c \<in> set (take 8 s). \<not> isspace c" by (simp add: isspace_iff)
    ultimately show ?thesis using infinity(2) by simp
  next
    case inf
    from take_full_length [OF inf(1)] have "3 \<le> length s" by simp
    moreover from map_tolower_no_space [OF inf(1)]
    have "\<forall>c \<in> set (take 3 s). \<not> isspace c" by (simp add: isspace_iff)
    ultimately show ?thesis using inf(2) by simp
  next
    case nan
    from take_full_length [OF nan(1)] have 1: "3 \<le> length s" by simp
    from map_tolower_no_space [OF nan(1)]
    have 2: "\<forall>c \<in> set (take 3 s). \<not> isspace c" by (simp add: isspace_iff)
    from nan_tail_taken [of "drop 3 s"]
    have 3: "nan_tail (drop 3 s) \<le> length (drop 3 s)"
      and 4: "\<forall>c \<in> set (take (nan_tail (drop 3 s)) (drop 3 s)). \<not> isspace c"
      by simp_all
    from take_add_no_space [OF 1 2 3 4] nan(2) show ?thesis by simp
  qed
qed

lemma subject_sequence_taken:
  assumes "subject_sequence neg r = Some (d, n)"
  shows "0 < n \<and> n \<le> length r \<and> (\<forall>c \<in> set (take n r). \<not> isspace c)"
  using assms hex_number_taken [of neg r d n] decimal_number_taken [of neg r d n]
    inf_nan_taken [of neg r d n]
  by (auto simp: subject_sequence_def split: option.splits)

section \<open>The parser of the C library keeps the assumptions\<close>

lemma opt_sign_suffix:
  assumes "opt_sign s = (neg, r)"
  shows "length r \<le> length s" and "r \<noteq> [] \<Longrightarrow> s \<noteq> [] \<and> last r = last s"
  using opt_sign_split [OF assms] by auto

lemma dropWhile_suffix:
  "length (dropWhile P s) \<le> length s"
  "dropWhile P s \<noteq> [] \<Longrightarrow> s \<noteq> [] \<and> last (dropWhile P s) = last s"
proof -
  show "length (dropWhile P s) \<le> length s" by (rule length_dropWhile_le)
  assume ne: "dropWhile P s \<noteq> []"
  have "s = takeWhile P s @ dropWhile P s" by simp
  then show "s \<noteq> [] \<and> last (dropWhile P s) = last s"
    using ne by (metis append_is_Nil_conv last_appendR)
qed

lemma strtod_taken:
  obtains (none) "strtod s = (0, 0)"
  | (some) neg r d n where "opt_sign (dropWhile isspace s) = (neg, r)"
      and "subject_sequence neg r = Some (d, n)"
      and "strtod s = (d, (length s - length r) + n)"
proof -
  obtain neg r where os: "opt_sign (dropWhile isspace s) = (neg, r)"
    by (cases "opt_sign (dropWhile isspace s)")
  show thesis
  proof (cases "subject_sequence neg r")
    case None
    with os have "strtod s = (0, 0)" by (simp add: strtod_def Let_def)
    then show thesis by (rule none)
  next
    case (Some x)
    obtain d n where x: "x = (d, n)" by (cases x)
    with os Some have "strtod s = (d, (length s - length r) + n)"
      by (simp add: strtod_def Let_def)
    with os Some x show thesis by (intro some) simp_all
  qed
qed

lemma strtod_stops_inside: "snd (strtod s) \<le> length s"
proof (cases s rule: strtod_taken)
  case none
  then show ?thesis by simp
next
  case (some neg r d n)
  have "length r \<le> length s"
    using opt_sign_suffix(1) [OF some(1)] dropWhile_suffix(1) [of isspace s] by simp
  moreover have "n \<le> length r" using subject_sequence_taken [OF some(2)] by simp
  ultimately show ?thesis using some(3) by simp
qed

lemma strtod_not_to_space:
  assumes "s \<noteq> []" and "isspace (last s)"
  shows "snd (strtod s) \<noteq> length s"
proof (cases s rule: strtod_taken)
  case none
  with assms show ?thesis by simp
next
  case (some neg r d n)
  have len: "length r \<le> length s"
    using opt_sign_suffix(1) [OF some(1)] dropWhile_suffix(1) [of isspace s] by simp
  from subject_sequence_taken [OF some(2)]
  have n: "0 < n" "n \<le> length r" and ns: "\<forall>c \<in> set (take n r). \<not> isspace c" by simp_all
  show ?thesis
  proof
    assume "snd (strtod s) = length s"
    with some(3) len n have all: "n = length r" by simp
    with n have r: "r \<noteq> []" by auto
    with opt_sign_suffix(2) [OF some(1)]
    have "dropWhile isspace s \<noteq> []" and "last r = last (dropWhile isspace s)" by simp_all
    with dropWhile_suffix(2) [of isspace s] have "last r = last s" by simp
    moreover from ns all r have "\<not> isspace (last r)" by simp
    ultimately show False using assms(2) by simp
  qed
qed

lemma strtod_skips:
  assumes ws: "\<forall>c \<in> set ws. isspace c" and conv: "snd (strtod s) \<noteq> 0"
  shows "strtod (ws @ s) = (fst (strtod s), length ws + snd (strtod s))"
proof (cases s rule: strtod_taken)
  case none
  with conv show ?thesis by simp
next
  case (some neg r d n)
  have d: "dropWhile isspace (ws @ s) = dropWhile isspace s"
    using ws by (simp add: dropWhile_append2)
  have len: "length r \<le> length s"
    using opt_sign_suffix(1) [OF some(1)] dropWhile_suffix(1) [of isspace s] by simp
  have "strtod (ws @ s) = (d, (length (ws @ s) - length r) + n)"
    using some(1,2) by (simp add: strtod_def Let_def d)
  with some(3) len show ?thesis by simp
qed

lemma strtod_skips_leading_space: "skips_leading_space strtod"
  unfolding skips_leading_space_def using strtod_skips by blast

lemma strtod_stops_before_space: "stops_before_space strtod"
  unfolding stops_before_space_def using strtod_stops_inside strtod_not_to_space by blast

lemma native_parser_libc: "native_parser hosted libc = strtod"
  by (simp add: native_parser_def hosted_def libc_def)

section \<open>Examples of parsing\<close>

lemmas strtod_defs = strtod_def subject_sequence_def hex_number_def decimal_number_def inf_nan_def
  nan_tail_def mantissa_part_def exponent_part_def opt_sign_def isspace_def isdigit_def
  isxdigit_def tolower_def digits_val_def digit_val_def xdigits_val_def xdigit_val_def
  scaled_double_def with_sign_def double_of_ratio_def round_half_even_def bit_length.simps Let_def

lemma strtod_examples:
  "strtod ''3.14'' = (0x40091EB851EB851F, 4)"
  "strtod ''1000.5'' = (0x408F440000000000, 6)"
  "strtod ''abc'' = (0, 0)"
  "strtod ''12x'' = (0x4028000000000000, 2)"
  "strtod '' 3.14'' = (0x40091EB851EB851F, 5)"
  "strtod ''3.14 '' = (0x40091EB851EB851F, 4)"
  by (simp_all add: strtod_defs)

lemma c_string_examples:
  "c_string ''3.14'' = ''3.14''" "c_string ''1000.5'' = ''1000.5''" "c_string ''abc'' = ''abc''"
  "c_string ''12x'' = ''12x''" "c_string '' 3.14'' = '' 3.14''" "c_string ''3.14 '' = ''3.14 ''"
  by (simp_all add: c_string_def)

lemma float_of_string_examples:
  "caml_float_of_string hosted libc h ''3.14'' = Inr (caml_copy_double hosted h 0x40091EB851EB851F)"
  "caml_float_of_string hosted libc h ''1_000.5'' = Inr (caml_copy_double hosted h 0x408F440000000000)"
  "caml_float_of_string hosted libc h ''abc'' = Inl (Failure ''float_of_string'')"
  "caml_float_of_string hosted libc h ''12x'' = Inl (Failure ''float_of_string'')"
  "caml_float_of_string hosted libc h '' 3.14'' = Inr (caml_copy_double hosted h 0x40091EB851EB851F)"
  "caml_float_of_string hosted libc h ''3.14 '' = Inl (Failure ''float_of_string'')"
  "caml_float_of_string hosted libc h [] = Inl (Failure ''float_of_string'')"
  "caml_float_of_string hosted libc h ''__'' = Inl (Failure ''float_of_string'')"
  by (simp_all add: float_of_string_buffer parse_buffer_cases native_parser_libc
      c_string_examples strtod_examples)

section \<open>Failure and success of float_of_string\<close>

text \<open>
  C6. For every build, native library, heap and string: \<open>float_of_string\<close> raises the
  failure tagged \<open>float_of_string\<close> exactly when the string without its separators is
  empty or the native parser does not stop at the end of that cleaned buffer; in every other
  case it returns the box of the parsed double. With the parser of the C library, \<open>abc\<close>
  and \<open>12x\<close> fail and \<open>3.14\<close> gives the box of 3.14 (\<open>0x40091EB851EB851F\<close>).
\<close>

theorem float_of_string_fails_iff:
  "caml_float_of_string b nv h vs =
     (if filter (\<lambda>c. c \<noteq> CHR ''_'') vs = []
         \<or> snd (native_parser b nv (c_string (filter (\<lambda>c. c \<noteq> CHR ''_'') vs)))
             \<noteq> length (filter (\<lambda>c. c \<noteq> CHR ''_'') vs)
      then Inl (Failure ''float_of_string'')
      else Inr (caml_copy_double b h
             (fst (native_parser b nv (c_string (filter (\<lambda>c. c \<noteq> CHR ''_'') vs))))))
   \<and> caml_float_of_string hosted libc h ''abc'' = Inl (Failure ''float_of_string'')
   \<and> caml_float_of_string hosted libc h ''12x'' = Inl (Failure ''float_of_string'')
   \<and> caml_float_of_string hosted libc h ''3.14''
       = Inr (caml_copy_double hosted h 0x40091EB851EB851F)"
  by (simp only: float_of_string_examples simp_thms)
     (simp only: float_of_string_buffer parse_buffer_cases)

lemma strtod_more_examples:
  "strtod ''1e5'' = (0x40F86A0000000000, 3)"
  "strtod ''1e'' = (0x3FF0000000000000, 1)"
  by (simp_all add: strtod_defs)

theorem float_of_string_fails_iff_witness:
  "caml_float_of_string hosted libc empty_heap ''1e5''
     = Inr (caml_copy_double hosted empty_heap 0x40F86A0000000000)
   \<and> caml_float_of_string hosted libc empty_heap ''1e'' = Inl (Failure ''float_of_string'')"
proof -
  have 1: "caml_float_of_string hosted libc empty_heap ''1e5''
     = Inr (caml_copy_double hosted empty_heap 0x40F86A0000000000)"
    using float_of_string_fails_iff [of hosted libc empty_heap "''1e5''"]
    by (simp add: native_parser_libc c_string_def strtod_more_examples)
  have 2: "caml_float_of_string hosted libc empty_heap ''1e'' = Inl (Failure ''float_of_string'')"
    using float_of_string_fails_iff [of hosted libc empty_heap "''1e''"]
    by (simp add: native_parser_libc c_string_def strtod_more_examples)
  from 1 2 show ?thesis by blast
qed

section \<open>Separators\<close>

text \<open>
  C7. The copying loop of \<open>float_of_string\<close> leaves in the buffer the string with every
  \<open>_\<close> deleted and every other character kept, in order, and the buffer is what the rest
  of the function parses; \<open>float_of_substring\<close> does the same with the characters of a
  valid slice. So \<open>1_000.5\<close> parses to 1000.5 (\<open>0x408F440000000000\<close>).
\<close>

theorem separators_deleted:
  fixes idx l :: "'w::len word"
  shows "copy_loop vs 0 (length vs) [] = Inr (filter (\<lambda>c. c \<noteq> CHR ''_'') vs)
   \<and> caml_float_of_string b nv h vs = parse_buffer b nv h (filter (\<lambda>c. c \<noteq> CHR ''_'') vs)
   \<and> (length vs < 2 ^ LENGTH('w) \<and> 0 \<le> sint idx \<and> sint idx < int (length vs)
        \<and> 0 < sint l \<and> sint l \<le> int (length vs) - sint idx
      \<longrightarrow> caml_float_of_substring b nv h vs idx l
          = parse_buffer b nv h
              (filter (\<lambda>c. c \<noteq> CHR ''_'') (take (unat l) (drop (unat idx) vs))))
   \<and> caml_float_of_string hosted libc h ''1_000.5''
       = Inr (caml_copy_double hosted h 0x408F440000000000)"
proof (intro conjI impI)
  show "copy_loop vs 0 (length vs) [] = Inr (filter (\<lambda>c. c \<noteq> CHR ''_'') vs)"
    by (rule copy_loop_whole)
  show "caml_float_of_string b nv h vs = parse_buffer b nv h (filter (\<lambda>c. c \<noteq> CHR ''_'') vs)"
    by (rule float_of_string_buffer)
  show "caml_float_of_string hosted libc h ''1_000.5''
       = Inr (caml_copy_double hosted h 0x408F440000000000)"
    by (rule float_of_string_examples)
  assume "length vs < 2 ^ LENGTH('w) \<and> 0 \<le> sint idx \<and> sint idx < int (length vs)
        \<and> 0 < sint l \<and> sint l \<le> int (length vs) - sint idx"
  then show "caml_float_of_substring b nv h vs idx l
          = parse_buffer b nv h
              (filter (\<lambda>c. c \<noteq> CHR ''_'') (take (unat l) (drop (unat idx) vs)))"
    by (intro float_of_substring_valid) simp_all
qed

theorem separators_deleted_witness:
  "caml_float_of_substring hosted libc empty_heap ''x=1_000.5;'' (2 :: 32 word) 7
     = Inr (caml_copy_double hosted empty_heap 0x408F440000000000)"
proof -
  have v: "length ''x=1_000.5;'' < 2 ^ LENGTH(32) \<and> 0 \<le> sint (2 :: 32 word)
      \<and> sint (2 :: 32 word) < int (length ''x=1_000.5;'')
      \<and> 0 < sint (7 :: 32 word)
      \<and> sint (7 :: 32 word) \<le> int (length ''x=1_000.5;'') - sint (2 :: 32 word)"
    by simp
  have p: "parse_buffer hosted libc empty_heap
      (filter (\<lambda>c. c \<noteq> CHR ''_'') (take (unat (7 :: 32 word)) (drop (unat (2 :: 32 word)) ''x=1_000.5;'')))
     = Inr (caml_copy_double hosted empty_heap 0x408F440000000000)"
    by (simp add: parse_buffer_cases native_parser_libc c_string_examples strtod_examples)
  from separators_deleted [where vs = "''x=1_000.5;''" and b = hosted and nv = libc
      and h = empty_heap and idx = "2 :: 32 word" and l = "7 :: 32 word"] v
  have "caml_float_of_substring hosted libc empty_heap ''x=1_000.5;'' (2 :: 32 word) 7
     = parse_buffer hosted libc empty_heap
        (filter (\<lambda>c. c \<noteq> CHR ''_'')
           (take (unat (7 :: 32 word)) (drop (unat (2 :: 32 word)) ''x=1_000.5;'')))"
    by blast
  with p show ?thesis by (simp only:)
qed

section \<open>Slices that are not valid\<close>

text \<open>
  C9. For every string (of a length that a machine word holds) and every index and length
  that are no valid non-empty slice of it, that is \<open>idx < 0\<close>, \<open>idx \<ge> length(s)\<close>,
  \<open>len \<le> 0\<close> or \<open>len > length(s) - idx\<close>: \<open>float_of_substring\<close> copies nothing and
  raises the failure tagged \<open>float_of_string\<close>; it neither reads outside the string nor
  returns a value.
\<close>

theorem float_of_substring_bad_slice:
  fixes idx l :: "'w::len word"
  assumes "length vs < 2 ^ LENGTH('w)"
    and "sint idx < 0 \<or> int (length vs) \<le> sint idx \<or> sint l \<le> 0
         \<or> int (length vs) - sint idx < sint l"
  shows "caml_float_of_substring b nv h vs idx l = Inl (Failure ''float_of_string'')"
  using assms by (rule float_of_substring_invalid)

theorem float_of_substring_bad_slice_witness:
  "caml_float_of_substring hosted libc empty_heap ''3.14'' (2 :: 32 word) 3
     = Inl (Failure ''float_of_string'')
   \<and> caml_float_of_substring hosted libc empty_heap ''3.14'' (- 1 :: 32 word) 2
     = Inl (Failure ''float_of_string'')
   \<and> caml_float_of_substring hosted libc empty_heap ''3.14'' (4 :: 32 word) 1
     = Inl (Failure ''float_of_string'')
   \<and> caml_float_of_substring hosted libc empty_heap ''3.14'' (0 :: 32 word) 0
     = Inl (Failure ''float_of_string'')"
proof -
  have len: "length ''3.14'' < 2 ^ LENGTH(32)" by simp
  have 1: "sint (2 :: 32 word) < 0 \<or> int (length ''3.14'') \<le> sint (2 :: 32 word)
      \<or> sint (3 :: 32 word) \<le> 0 \<or> int (length ''3.14'') - sint (2 :: 32 word) < sint (3 :: 32 word)"
    by simp
  have 2: "sint (- 1 :: 32 word) < 0 \<or> int (length ''3.14'') \<le> sint (- 1 :: 32 word)
      \<or> sint (2 :: 32 word) \<le> 0 \<or> int (length ''3.14'') - sint (- 1 :: 32 word) < sint (2 :: 32 word)"
    by simp
  have 3: "sint (4 :: 32 word) < 0 \<or> int (length ''3.14'') \<le> sint (4 :: 32 word)
      \<or> sint (1 :: 32 word) \<le> 0 \<or> int (length ''3.14'') - sint (4 :: 32 word) < sint (1 :: 32 word)"
    by simp
  have 4: "sint (0 :: 32 word) < 0 \<or> int (length ''3.14'') \<le> sint (0 :: 32 word)
      \<or> sint (0 :: 32 word) \<le> 0 \<or> int (length ''3.14'') - sint (0 :: 32 word) < sint (0 :: 32 word)"
    by simp
  from float_of_substring_bad_slice [OF len 1] float_of_substring_bad_slice [OF len 2]
    float_of_substring_bad_slice [OF len 3] float_of_substring_bad_slice [OF len 4]
  show ?thesis by blast
qed

section \<open>White space\<close>

lemma takeWhile_whole: "length (takeWhile P xs) = length xs \<Longrightarrow> takeWhile P xs = xs"
  by (metis takeWhile_eq_take take_all order_refl)

lemma filter_last_kept:
  assumes "vs \<noteq> []" and "P (last vs)"
  shows "filter P vs \<noteq> [] \<and> last (filter P vs) = last vs"
proof -
  from assms(1) have "vs = butlast vs @ [last vs]" by simp
  then have "filter P vs = filter P (butlast vs) @ [last vs]"
    using assms(2) by (metis filter.simps filter_append)
  then show ?thesis by simp
qed

lemma leading_space_kept:
  assumes ws: "\<forall>c \<in> set ws. isspace c"
  shows "filter (\<lambda>c. c \<noteq> CHR ''_'') (ws @ vs) = ws @ filter (\<lambda>c. c \<noteq> CHR ''_'') vs"
    and "c_string (ws @ buf) = ws @ c_string buf"
proof -
  have "filter (\<lambda>c. c \<noteq> CHR ''_'') ws = ws"
    using ws by (auto intro: filter_True dest: space_not_separator)
  then show "filter (\<lambda>c. c \<noteq> CHR ''_'') (ws @ vs) = ws @ filter (\<lambda>c. c \<noteq> CHR ''_'') vs"
    by simp
  show "c_string (ws @ buf) = ws @ c_string buf"
    unfolding c_string_def using ws by (auto intro: takeWhile_append2 dest: space_not_nul)
qed

lemma float_of_string_leading_space:
  assumes skip: "skips_leading_space (native_parser b nv)"
    and ws: "\<forall>c \<in> set ws. isspace c"
    and ok: "caml_float_of_string b nv h vs = Inr r"
  shows "caml_float_of_string b nv h (ws @ vs) = Inr r"
proof -
  let ?buf = "filter (\<lambda>c. c \<noteq> CHR ''_'') vs"
  let ?p = "native_parser b nv"
  from ok have ne: "?buf \<noteq> []" and e: "snd (?p (c_string ?buf)) = length ?buf"
    and r: "r = caml_copy_double b h (fst (?p (c_string ?buf)))"
    by (auto simp: float_of_string_buffer parse_buffer_cases split: if_splits)
  from ne e have "snd (?p (c_string ?buf)) \<noteq> 0" by simp
  with skip ws have "?p (ws @ c_string ?buf)
      = (fst (?p (c_string ?buf)), length ws + snd (?p (c_string ?buf)))"
    unfolding skips_leading_space_def by blast
  moreover have "filter (\<lambda>c. c \<noteq> CHR ''_'') (ws @ vs) = ws @ ?buf"
    using ws by (rule leading_space_kept)
  moreover have "c_string (ws @ ?buf) = ws @ c_string ?buf"
    using ws by (rule leading_space_kept)
  ultimately have "parse_buffer b nv h (filter (\<lambda>c. c \<noteq> CHR ''_'') (ws @ vs)) = Inr r"
    using e r ne by (simp add: parse_buffer_cases del: filter_append)
  then show ?thesis by (simp only: float_of_string_buffer)
qed

lemma float_of_string_trailing_space:
  assumes stop: "stops_before_space (native_parser b nv)"
    and vs: "vs \<noteq> []" and sp: "isspace (last vs)"
  shows "caml_float_of_string b nv h vs = Inl (Failure ''float_of_string'')"
proof -
  let ?buf = "filter (\<lambda>c. c \<noteq> CHR ''_'') vs"
  let ?p = "native_parser b nv"
  from sp have "last vs \<noteq> CHR ''_''" by (rule space_not_separator)
  with filter_last_kept [of vs "\<lambda>c. c \<noteq> CHR ''_''"] vs
  have ne: "?buf \<noteq> []" and last: "last ?buf = last vs" by simp_all
  have "snd (?p (c_string ?buf)) \<noteq> length ?buf"
  proof
    assume e: "snd (?p (c_string ?buf)) = length ?buf"
    from stop have "snd (?p (c_string ?buf)) \<le> length (c_string ?buf)"
      unfolding stops_before_space_def by blast
    moreover have "length (c_string ?buf) \<le> length ?buf"
      unfolding c_string_def by (rule length_takeWhile_le)
    ultimately have "length (c_string ?buf) = length ?buf" using e by simp
    then have whole: "c_string ?buf = ?buf"
      unfolding c_string_def by (rule takeWhile_whole)
    from stop ne last sp have "snd (?p ?buf) \<noteq> length ?buf"
      unfolding stops_before_space_def by simp
    with e whole show False by simp
  qed
  then show ?thesis by (simp add: float_of_string_buffer parse_buffer_cases)
qed

text \<open>
  C10. With a native parser that, as \<^verbatim>\<open>strtod\<close> does, skips white space before a number
  and never takes white space as the end of one: white space before a string that
  \<open>float_of_string\<close> accepts changes nothing, the result is the same box; and every string
  that ends in white space raises the failure tagged \<open>float_of_string\<close>, because the
  parser then stops before the end of the cleaned buffer.
\<close>

theorem float_of_string_white_space:
  assumes "skips_leading_space (native_parser b nv)"
    and "stops_before_space (native_parser b nv)"
  shows "((\<forall>c \<in> set ws. isspace c) \<and> caml_float_of_string b nv h vs = Inr r
          \<longrightarrow> caml_float_of_string b nv h (ws @ vs) = Inr r)
    \<and> (vs \<noteq> [] \<and> isspace (last vs)
          \<longrightarrow> caml_float_of_string b nv h vs = Inl (Failure ''float_of_string''))"
  using float_of_string_leading_space [OF assms(1), where ws = ws and h = h and vs = vs and r = r]
    float_of_string_trailing_space [OF assms(2), where vs = vs and h = h]
  by blast

theorem float_of_string_white_space_witness:
  "caml_float_of_string hosted libc empty_heap '' 3.14''
     = Inr (caml_copy_double hosted empty_heap 0x40091EB851EB851F)
   \<and> caml_float_of_string hosted libc empty_heap ''3.14 '' = Inl (Failure ''float_of_string'')"
proof -
  have skip: "skips_leading_space (native_parser hosted libc)"
    by (simp only: native_parser_libc strtod_skips_leading_space)
  have stop: "stops_before_space (native_parser hosted libc)"
    by (simp only: native_parser_libc strtod_stops_before_space)
  have ws: "\<forall>c \<in> set '' ''. isspace c" by (simp add: isspace_def)
  have ok: "caml_float_of_string hosted libc empty_heap ''3.14''
     = Inr (caml_copy_double hosted empty_heap 0x40091EB851EB851F)"
    by (rule float_of_string_examples)
  have tr: "''3.14 '' \<noteq> [] \<and> isspace (last ''3.14 '')" by (simp add: isspace_def)
  from float_of_string_white_space [OF skip stop, where ws = "'' ''" and h = empty_heap
      and vs = "''3.14''" and r = "caml_copy_double hosted empty_heap 0x40091EB851EB851F"] ws ok
  have 1: "caml_float_of_string hosted libc empty_heap ('' '' @ ''3.14'')
     = Inr (caml_copy_double hosted empty_heap 0x40091EB851EB851F)" by blast
  from float_of_string_white_space [OF skip stop, where h = empty_heap and vs = "''3.14 ''"] tr
  have 2: "caml_float_of_string hosted libc empty_heap ''3.14 '' = Inl (Failure ''float_of_string'')"
    by blast
  from 1 2 show ?thesis by simp
qed

end
